theory Spec2Isabelle
  imports Complex_Main "HOL-Library.Word"
begin

unbundle bit_operations_syntax

section \<open>The room engine of \<open>src/room.js\<close>\<close>

text \<open>
  The theory embeds the transmission engine of \<open>room.js\<close>: action registration
  (\<open>makeAction\<close>), fragmenting (\<open>send\<close>), reassembly (\<open>handleData\<close>) and
  \<open>ping\<close>. Closure variables of the room become fields of a record that every operation
  takes and returns. A JavaScript exception is a value of \<open>error\<close>; an \<open>async\<close>
  function returns a promise, so its exceptions are rejections.
\<close>

subsection \<open>Bytes, errors, results\<close>

type_synonym byte = "8 word"
type_synonym bytes = "byte list"

datatype error =
    ActionTypeRequired
  | ActionTypeTooLong string nat
  | MetaNotObject
  | DataUndefined
  | MetaNeedsBinary
  | UnregisteredType string
  | PingNeedsTarget
  | RangeError
  | SyntaxError
  | NotAFunction
  | UndefinedRead
  | BigIntToNumber

text \<open>
  The first seven errors are the \<open>mkErr\<close> messages of the source, in the order of their
  appearance. \<open>RangeError\<close> is what \<open>Uint8Array.prototype.set\<close> raises when the source
  does not fit, \<open>SyntaxError\<close> what \<open>JSON.parse\<close> raises. The last three are
  \<open>TypeError\<close>s of the language: calling \<open>undefined\<close>, reading a property of
  \<open>undefined\<close>, and making a \<open>Uint8Array\<close> of an array of \<open>BigInt\<close>s.
\<close>

definition bindE :: "error + 'a \<Rightarrow> ('a \<Rightarrow> error + 'b) \<Rightarrow> error + 'b" where
  "bindE r f = (case r of Inl e \<Rightarrow> Inl e | Inr v \<Rightarrow> f v)"

fun mapE :: "('a \<Rightarrow> error + 'b) \<Rightarrow> 'a list \<Rightarrow> error + 'b list" where
  "mapE f [] = Inr []"
| "mapE f (x # xs) = bindE (f x) (\<lambda>y. bindE (mapE f xs) (\<lambda>ys. Inr (y # ys)))"

text \<open>
  A call either throws or returns; a promise is rejected, fulfilled or still pending.
  \<open>async\<close> is the wrapper the keyword puts around a function body: the call itself
  always returns, and an exception of the body rejects the promise.
\<close>

datatype 'a outcome = Throws error | Returns 'a

datatype 'a promise = Rejected error | Fulfilled 'a | Pending

definition async :: "error + 'a \<Rightarrow> 'a promise outcome" where
  "async body = Returns (case body of Inl e \<Rightarrow> Rejected e | Inr v \<Rightarrow> Fulfilled v)"

subsection \<open>The imported utilities\<close>

text \<open>
  \<open>encodeBytes\<close>, \<open>decodeBytes\<close>, \<open>toJson\<close> and \<open>fromJson\<close> are imported from
  \<open>utils.js\<close>, which is not part of the sources at hand; they are parameters of the
  model. \<open>'j\<close> is the type of values \<open>toJson\<close> serialises; \<open>fromJson\<close> returns
  \<open>None\<close> where \<open>JSON.parse\<close> raises.
\<close>

record 'j utils =
  encodeBytes :: "string \<Rightarrow> bytes"
  decodeBytes :: "bytes \<Rightarrow> string"
  toJson :: "'j \<Rightarrow> string"
  fromJson :: "string \<Rightarrow> 'j option"

subsection \<open>Constants of the frame layout\<close>

definition typeByteLimit :: nat where "typeByteLimit = 12"
definition typeIndex :: nat where "typeIndex = 0"
definition nonceIndex :: nat where "nonceIndex = typeIndex + typeByteLimit"
definition tagIndex :: nat where "tagIndex = nonceIndex + 1"
definition progressIndex :: nat where "progressIndex = tagIndex + 1"
definition payloadIndex :: nat where "payloadIndex = progressIndex + 1"
definition chunkSize :: nat where "chunkSize = 16 * 2 ^ 10 - payloadIndex"
definition oneByteMax :: nat where "oneByteMax = 255"

subsection \<open>Typed arrays\<close>

text \<open>
  \<open>target.set(src, offset)\<close> copies \<open>src\<close> into \<open>target\<close> and raises a
  \<open>RangeError\<close> when it would write past the end. \<open>subarray(b, e)\<close> clamps both
  bounds to the length.
\<close>

definition u8set :: "bytes \<Rightarrow> bytes \<Rightarrow> nat \<Rightarrow> error + bytes" where
  "u8set target src offset =
     (if offset + length src > length target then Inl RangeError
      else Inr (take offset target @ src @ drop (offset + length src) target))"

definition subarray :: "bytes \<Rightarrow> nat \<Rightarrow> nat \<Rightarrow> bytes" where
  "subarray b from to = drop from (take to b)"

definition byteAt :: "bytes \<Rightarrow> nat \<Rightarrow> byte option" where
  "byteAt b i = (if i < length b then Some (b ! i) else None)"

text \<open>
  An element of a typed array of numbers is a finite number or one of \<open>NaN\<close>,
  \<open>Infinity\<close>, \<open>-Infinity\<close>. \<open>new Uint8Array(array)\<close> converts each element:
  what is not finite becomes 0, a finite number is truncated towards zero and reduced
  modulo 256.
\<close>

datatype jsnumber = Finite rat | NotFinite

definition toUint8 :: "jsnumber \<Rightarrow> byte" where
  "toUint8 x =
     (case x of
        NotFinite \<Rightarrow> 0
      | Finite q \<Rightarrow> word_of_int (if 0 \<le> q then \<lfloor>q\<rfloor> else \<lceil>q\<rceil>))"

subsection \<open>Objects used as tables\<close>

text \<open>
  \<open>actions\<close>, \<open>peerMap\<close> and the tables of pending transmissions are created as
  \<open>{}\<close> and read as \<open>table[key]\<close>. Such a read finds the object's own property or
  else the property of that name on \<open>Object.prototype\<close>. The names below are the ones
  \<open>Object.prototype\<close> has from the start (the built-in objects are taken as the
  language defines them); their values are functions, or for \<open>__proto__\<close> the
  prototype itself: all truthy, none with a property \<open>send\<close>, \<open>onProgress\<close> or
  \<open>channel\<close>. An argument that is \<open>undefined\<close> is looked up under the key
  \<open>undefined\<close>.
\<close>

definition objectPrototypeKeys :: "string list" where
  "objectPrototypeKeys =
     [''constructor'', ''hasOwnProperty'', ''isPrototypeOf'', ''propertyIsEnumerable'',
      ''toLocaleString'', ''toString'', ''valueOf'', ''__proto__'',
      ''__defineGetter__'', ''__defineSetter__'', ''__lookupGetter__'', ''__lookupSetter__'']"

definition protoKey :: string where
  "protoKey = ''__proto__''"

text \<open>
  \<open>handleData\<close> stores pending transmissions under the nonce it reads from the frame:
  a byte, or \<open>undefined\<close> when the frame is too short. As a property key the byte is
  its decimal numeral. \<open>keyNonce\<close> reads a key back: the keys of nonces are
  \<open>undefined\<close> and the numerals of 0 to 255 without leading zeros.
\<close>

definition digit :: "nat \<Rightarrow> char" where
  "digit n = char_of (48 + n)"

definition nonceKey :: "byte option \<Rightarrow> string" where
  "nonceKey k =
     (case k of
        None \<Rightarrow> ''undefined''
      | Some b \<Rightarrow>
          (let n = unat b
           in if n < 10 then [digit n]
              else if n < 100 then [digit (n div 10), digit (n mod 10)]
              else [digit (n div 100), digit (n div 10 mod 10), digit (n mod 10)]))"

definition digitValue :: "char \<Rightarrow> nat option" where
  "digitValue c =
     (let n = (of_char c :: nat) in if 48 \<le> n \<and> n \<le> 57 then Some (n - 48) else None)"

definition keyNonce :: "string \<Rightarrow> byte option option" where
  "keyNonce k =
     (if k = ''undefined'' then Some None
      else case those (map digitValue k) of
             None \<Rightarrow> None
           | Some ds \<Rightarrow>
               (let n = foldl (\<lambda>a d. 10 * a + d) 0 ds
                in if ds = [] \<or> 3 < length ds \<or> 255 < n then None
                   else if hd ds = 0 \<and> 1 < length ds then None
                   else Some (Some (of_nat n))))"

datatype 'a lookup = Own 'a | Inherited | Absent

text \<open>
  \<open>getProp\<close> is the read \<open>obj[k]\<close> of a table whose own properties are \<open>obj\<close>,
  where \<open>inherits\<close> tells the names that \<open>Object.prototype\<close> holds at the time.
\<close>

definition getProp :: "(string \<Rightarrow> bool) \<Rightarrow> (string \<rightharpoonup> 'a) \<Rightarrow> string \<Rightarrow> 'a lookup" where
  "getProp inherits obj k =
     (case obj k of
        Some v \<Rightarrow> Own v
      | None \<Rightarrow> if inherits k then Inherited else Absent)"

definition propertyKey :: "string option \<Rightarrow> string" where
  "propertyKey k = (case k of None \<Rightarrow> ''undefined'' | Some s \<Rightarrow> s)"

subsection \<open>Actions and the room\<close>

text \<open>
  A callback is known by its identity only: \<open>noOp\<close>, a function of the caller, or one
  of the six handlers the room installs on its internal actions. What a callback does
  is outside the model; every invocation is appended to the trace \<open>calls\<close>.
\<close>

datatype callback =
    noOp
  | UserFn nat
  | ReplyPong
  | ResolvePong
  | AddSignal
  | StageStreamMeta
  | StageTrackMeta
  | ExitPeer

text \<open>
  \<open>typeBytesPadded\<close> and \<open>nonce\<close> are variables of the closure \<open>makeAction\<close>
  creates; \<open>closureId\<close> tells the functions of one closure from those of another.
\<close>

record action =
  onComplete :: callback
  onProgress :: callback
  closureId :: nat
  typeBytesPadded :: bytes
  nonce :: nat

datatype fnref = FnUndefined | SendFn nat | SetOnCompleteFn nat | SetOnProgressFn nat

type_synonym handles = "fnref \<times> fnref \<times> fnref"

definition handlesOf :: "action \<Rightarrow> handles" where
  "handlesOf a = (SendFn (closureId a), SetOnCompleteFn (closureId a), SetOnProgressFn (closureId a))"

text \<open>A pending transmission: the fragments received so far and the metadata, if any.\<close>

record 'j target =
  chunks :: "bytes list"
  meta :: "'j option"

text \<open>
  What a completion callback receives, the metadata argument of \<open>send\<close> (falsy, an
  object, or another truthy value), and the entries of the trace of callback
  invocations: a call of the progress callback given to \<open>send\<close>, of an action's
  progress callback, of an action's completion callback. A progress value is \<open>None\<close>
  where the source computes \<open>undefined / 255\<close>.
\<close>

datatype 'j delivered = Bytes bytes | Text string | Json 'j

datatype 'j jsmeta = MetaFalsy | MetaObject 'j | MetaOther

datatype 'j call =
    SenderProgress nat "rat option" string "'j jsmeta"
  | ActionProgress callback "rat option" string "'j option"
  | ActionComplete callback "'j delivered" string "'j option"

text \<open>
  The data argument of \<open>send\<close>: \<open>undefined\<close>, a string, a \<open>Blob\<close> (given by the
  bytes that reading it yields), an \<open>ArrayBuffer\<close> or \<open>Uint8Array\<close> (given by its
  bytes), another typed array of numbers (given by the values of its elements), a typed
  array of \<open>BigInt\<close>s, or any other value (serialised by \<open>toJson\<close>). The targets
  argument is falsy, one id or an array of ids; an id is given by the property key it
  is read under. A request collects the arguments of one call.
\<close>

datatype 'j jsdata =
    DUndefined
  | DString string
  | DBlob bytes
  | DBuffer bytes
  | DTyped "jsnumber list"
  | DBigInts "int list"
  | DJson 'j

datatype targets = NoTargets | OneTarget string | ManyTargets "string list"

record 'j request =
  reqData :: "'j jsdata"
  reqTargets :: targets
  reqMeta :: "'j jsmeta"
  reqOnProgress :: "nat option"

text \<open>
  The variables of the closure that the exported function creates. \<open>peerMap\<close> keeps the
  ids of the registered peers (its own keys, in the order \<open>keys(peerMap)\<close> lists
  them), \<open>pendingPongs\<close> the ids that have a resolver stored. \<open>blobReads\<close> are the
  calls of \<open>send\<close> that wait for their \<open>Blob\<close> to be read, each with the name of its
  action. \<open>sent\<close> is the trace of the calls \<open>peer.sendData(chunk)\<close>, \<open>calls\<close> the
  trace of callback invocations, and \<open>nextClosure\<close> numbers the closures that
  \<open>makeAction\<close> creates.

  \<open>inherited\<close> is not a variable of the closure: it holds the properties that
  \<open>handleData\<close> has added to the objects every table inherits from. Under
  \<open>__proto__\<close> it has the pending transmissions stored on \<open>Object.prototype\<close>
  itself, which every later read of a table finds under their keys; under another name
  it has those stored on the object that a table inherits under this name (a built-in
  function, or a pending transmission stored on \<open>Object.prototype\<close>).
\<close>

record 'j room =
  peerMap :: "string list"
  actions :: "string \<rightharpoonup> action"
  pendingTransmissions :: "string \<rightharpoonup> (string \<rightharpoonup> (byte option \<rightharpoonup> 'j target))"
  inherited :: "string \<Rightarrow> (byte option \<rightharpoonup> 'j target)"
  pendingPongs :: "string list"
  blobReads :: "(string \<times> 'j request) list"
  nextClosure :: nat
  sent :: "(string \<times> bytes) list"
  calls :: "'j call list"

definition emptyRoom :: "'j room" where
  "emptyRoom = \<lparr>peerMap = [], actions = Map.empty, pendingTransmissions = Map.empty,
     inherited = (\<lambda>k. Map.empty), pendingPongs = [], blobReads = [], nextClosure = 0,
     sent = [], calls = []\<rparr>"

text \<open>
  The names a table inherits in a given state: those of \<open>Object.prototype\<close> from the
  start, and the keys of the pending transmissions stored there since.
\<close>

definition inherits :: "'j room \<Rightarrow> string \<Rightarrow> bool" where
  "inherits st k =
     (k \<in> set objectPrototypeKeys \<or>
      (case keyNonce k of None \<Rightarrow> False | Some n \<Rightarrow> inherited st protoKey n \<noteq> None))"

subsection \<open>makeAction\<close>

definition makeAction :: "'j utils \<Rightarrow> 'j room \<Rightarrow> string option \<Rightarrow> error + handles \<times> 'j room" where
  "makeAction U st type =
     (case getProp (inherits st) (actions st) (propertyKey type) of
        Own a \<Rightarrow> Inr (handlesOf a, st)
      | Inherited \<Rightarrow> Inr ((FnUndefined, FnUndefined, FnUndefined), st)
      | Absent \<Rightarrow>
          (case type of
             None \<Rightarrow> Inl ActionTypeRequired
           | Some name \<Rightarrow>
               if name = [] then Inl ActionTypeRequired
               else
                 let typeBytes = encodeBytes U name in
                 if length typeBytes > typeByteLimit
                 then Inl (ActionTypeTooLong name (length typeBytes))
                 else
                   bindE (u8set (replicate typeByteLimit 0) typeBytes 0) (\<lambda>padded.
                     let a = \<lparr>onComplete = noOp, onProgress = noOp,
                                closureId = nextClosure st,
                                typeBytesPadded = padded, nonce = 0\<rparr>
                     in Inr (handlesOf a,
                             st\<lparr>actions := (actions st)(name \<mapsto> a),
                                nextClosure := Suc (nextClosure st)\<rparr>))))"

definition setOnComplete :: "'j room \<Rightarrow> string \<Rightarrow> callback \<Rightarrow> 'j room" where
  "setOnComplete st name f =
     (case actions st name of
        None \<Rightarrow> st
      | Some a \<Rightarrow> st\<lparr>actions := (actions st)(name \<mapsto> a\<lparr>onComplete := f\<rparr>)\<rparr>)"

definition setOnProgress :: "'j room \<Rightarrow> string \<Rightarrow> callback \<Rightarrow> 'j room" where
  "setOnProgress st name f =
     (case actions st name of
        None \<Rightarrow> st
      | Some a \<Rightarrow> st\<lparr>actions := (actions st)(name \<mapsto> a\<lparr>onProgress := f\<rparr>)\<rparr>)"

subsection \<open>The room's internal actions\<close>

definition internalTypes :: "string list" where
  "internalTypes =
     [''__91n6__'', ''__90n6__'', ''__516n4L__'', ''__57r34m__'', ''__7r4ck__'', ''__l34v3__'']"

definition internalHandlers :: "callback list" where
  "internalHandlers =
     [ReplyPong, ResolvePong, AddSignal, StageStreamMeta, StageTrackMeta, ExitPeer]"

fun makeActions :: "'j utils \<Rightarrow> 'j room \<Rightarrow> string list \<Rightarrow> error + handles list \<times> 'j room" where
  "makeActions U st [] = Inr ([], st)"
| "makeActions U st (n # ns) =
     bindE (makeAction U st (Some n)) (\<lambda>r.
       bindE (makeActions U (snd r) ns) (\<lambda>rs. Inr (fst r # fst rs, snd rs)))"

text \<open>
  The body of the exported function: the six \<open>makeAction\<close> calls, whose results the
  room keeps for its own use, then the six handlers set through the second function
  each call returned. The room starts where nothing has been added to
  \<open>Object.prototype\<close>.
\<close>

definition newRoom :: "'j utils \<Rightarrow> error + handles list \<times> 'j room" where
  "newRoom U =
     bindE (makeActions U emptyRoom internalTypes) (\<lambda>r.
       Inr (fst r, foldl (\<lambda>s nf. setOnComplete s (fst nf) (snd nf)) (snd r)
              (zip internalTypes internalHandlers)))"

subsection \<open>send\<close>

text \<open>
  The metadata argument is falsy (left out, \<open>null\<close>, \<open>0\<close>, the empty string), an
  object, or another truthy value. Binary data are a \<open>Blob\<close>, an \<open>ArrayBuffer\<close>
  and every typed array.
\<close>

definition isBlob :: "'j jsdata \<Rightarrow> bool" where
  "isBlob d = (case d of DBlob _ \<Rightarrow> True | _ \<Rightarrow> False)"

definition isBigInts :: "'j jsdata \<Rightarrow> bool" where
  "isBigInts d = (case d of DBigInts _ \<Rightarrow> True | _ \<Rightarrow> False)"

definition isBinaryData :: "'j jsdata \<Rightarrow> bool" where
  "isBinaryData d =
     (case d of
        DBlob _ \<Rightarrow> True
      | DBuffer _ \<Rightarrow> True
      | DTyped _ \<Rightarrow> True
      | DBigInts _ \<Rightarrow> True
      | _ \<Rightarrow> False)"

definition isJsonData :: "'j jsdata \<Rightarrow> bool" where
  "isJsonData d = (case d of DString _ \<Rightarrow> False | _ \<Rightarrow> True)"

definition truthyMeta :: "'j jsmeta \<Rightarrow> bool" where
  "truthyMeta m = (case m of MetaFalsy \<Rightarrow> False | _ \<Rightarrow> True)"

definition ceilDiv :: "nat \<Rightarrow> nat \<Rightarrow> nat" where
  "ceilDiv a b = nat \<lceil>(of_nat a :: rat) / of_nat b\<rceil>"

definition chunkTotal :: "nat \<Rightarrow> bool \<Rightarrow> nat" where
  "chunkTotal byteLength hasMeta =
     (let n = ceilDiv byteLength chunkSize + (if hasMeta then 1 else 0)
      in if n = 0 then 1 else n)"

text \<open>
  \<open>Math.round(((i + 1) / chunkTotal) * oneByteMax)\<close>, with the quotient taken as the
  exact rational number; \<open>Math.round\<close> rounds a half upwards.
\<close>

definition progressByte :: "nat \<Rightarrow> nat \<Rightarrow> nat" where
  "progressByte i count =
     nat \<lfloor>(of_nat (i + 1) :: rat) / of_nat count * of_nat oneByteMax + 1 / 2\<rfloor>"

definition tagByte :: "bool \<Rightarrow> bool \<Rightarrow> bool \<Rightarrow> bool \<Rightarrow> byte" where
  "tagByte isLast isMeta isBinary isJson =
     of_bool isLast OR push_bit 1 (of_bool isMeta) OR push_bit 2 (of_bool isBinary)
       OR push_bit 3 (of_bool isJson)"

definition mkChunk ::
  "bytes \<Rightarrow> nat \<Rightarrow> bool \<Rightarrow> bool \<Rightarrow> bool \<Rightarrow> bytes \<Rightarrow> bytes \<Rightarrow> nat \<Rightarrow> nat \<Rightarrow> error + bytes" where
  "mkChunk padded nonceV hasMeta isBinary isJson metaEncoded buffer count i =
     (let isLast = (i = count - 1);
          isMeta = (hasMeta \<and> i = 0);
          chunk = replicate
            (payloadIndex +
               (if isMeta then length metaEncoded
                else if isLast
                  then length buffer - chunkSize * (count - (if hasMeta then 2 else 1))
                  else chunkSize)) (0 :: byte)
      in bindE (u8set chunk padded 0) (\<lambda>c1.
         bindE (u8set c1 [of_nat nonceV] nonceIndex) (\<lambda>c2.
         bindE (u8set c2 [tagByte isLast isMeta isBinary isJson] tagIndex) (\<lambda>c3.
         bindE (u8set c3 [of_nat (progressByte i count)] progressIndex) (\<lambda>c4.
         u8set c4
           (if hasMeta
            then if isMeta then metaEncoded
                 else subarray buffer ((i - 1) * chunkSize) (i * chunkSize)
            else subarray buffer (i * chunkSize) ((i + 1) * chunkSize))
           payloadIndex)))))"

text \<open>
  \<open>alloc(n, f)\<close> is called with the fragment count and the function that builds
  fragment \<open>i\<close>; its result is indexed from 0 to \<open>n - 1\<close> by the sending loop.
\<close>

definition alloc :: "nat \<Rightarrow> (nat \<Rightarrow> error + 'a) \<Rightarrow> error + 'a list" where
  "alloc n f = mapE f [0..<n]"

text \<open>
  The bytes of the payload and of the metadata, as \<open>send\<close> computes them. For binary
  data the payload is \<open>new Uint8Array(data)\<close>: the bytes of a \<open>Blob\<close>,
  \<open>ArrayBuffer\<close> or \<open>Uint8Array\<close>, and for another typed array of numbers one
  byte for each element, converted. For an array of \<open>BigInt\<close>s the constructor
  raises, which \<open>buildChunks\<close> tells first.
\<close>

definition bufferOf :: "'j utils \<Rightarrow> 'j jsdata \<Rightarrow> bytes" where
  "bufferOf U d =
     (case d of
        DBlob b \<Rightarrow> b
      | DBuffer b \<Rightarrow> b
      | DTyped xs \<Rightarrow> map toUint8 xs
      | DBigInts xs \<Rightarrow> []
      | DString s \<Rightarrow> encodeBytes U s
      | DJson v \<Rightarrow> encodeBytes U (toJson U v)
      | DUndefined \<Rightarrow> [])"

definition metaEncodedOf :: "'j utils \<Rightarrow> 'j jsmeta \<Rightarrow> bytes" where
  "metaEncodedOf U m = (case m of MetaObject v \<Rightarrow> encodeBytes U (toJson U v) | _ \<Rightarrow> [])"

text \<open>
  The three checks at the head of \<open>send\<close>, the part that builds the fragments with
  the nonce of the closure as it is at that moment, and the two together.
\<close>

definition checkArgs :: "'j jsdata \<Rightarrow> 'j jsmeta \<Rightarrow> error option" where
  "checkArgs d m =
     (if m = MetaOther then Some MetaNotObject
      else if d = DUndefined then Some DataUndefined
      else if truthyMeta m \<and> \<not> isBinaryData d then Some MetaNeedsBinary
      else None)"

definition buildChunks :: "'j utils \<Rightarrow> action \<Rightarrow> 'j jsdata \<Rightarrow> 'j jsmeta \<Rightarrow> error + bytes list" where
  "buildChunks U a d m =
     (if isBigInts d then Inl BigIntToNumber
      else
        let buffer = bufferOf U d;
            metaEncoded = metaEncodedOf U m;
            count = chunkTotal (length buffer) (truthyMeta m)
        in alloc count
             (mkChunk (typeBytesPadded a) (nonce a) (truthyMeta m) (isBinaryData d)
                (isJsonData d) metaEncoded buffer count))"

definition sendChunks :: "'j utils \<Rightarrow> action \<Rightarrow> 'j jsdata \<Rightarrow> 'j jsmeta \<Rightarrow> error + bytes list" where
  "sendChunks U a d m =
     (case checkArgs d m of
        Some e \<Rightarrow> Inl e
      | None \<Rightarrow> buildChunks U a d m)"

text \<open>
  The ids \<open>iterate\<close> goes through, and the loop that hands the fragments to one
  peer. Whether \<open>peerMap[id]\<close> is still found when fragment \<open>n\<close> is about to be
  handed over is given by \<open>online\<close>; the loop stops at the first fragment for which it
  is not.
\<close>

definition targetIds :: "'j room \<Rightarrow> targets \<Rightarrow> string list" where
  "targetIds st t =
     (case t of
        NoTargets \<Rightarrow> peerMap st
      | OneTarget i \<Rightarrow> if i = [] then peerMap st else [i]
      | ManyTargets ids \<Rightarrow> ids)"

fun sendLoop :: "(nat \<Rightarrow> bool) \<Rightarrow> nat \<Rightarrow> bytes list \<Rightarrow> bytes list" where
  "sendLoop online n [] = []"
| "sendLoop online n (c # cs) =
     (if online n then c # sendLoop online (Suc n) cs else [])"

definition progressOf :: "bytes \<Rightarrow> rat option" where
  "progressOf chunk =
     map_option (\<lambda>p. of_nat (unat p) / of_nat oneByteMax) (byteAt chunk progressIndex)"

definition senderCalls :: "nat option \<Rightarrow> string \<Rightarrow> 'j jsmeta \<Rightarrow> bytes list \<Rightarrow> 'j call list" where
  "senderCalls onProg pid m out =
     (case onProg of
        None \<Rightarrow> []
      | Some f \<Rightarrow> map (\<lambda>c. SenderProgress f (progressOf c) pid m) out)"

text \<open>
  What \<open>iterate\<close> does for one id. For a registered peer the loop runs. For an id
  that \<open>peerMap\<close> does not hold, \<open>peerMap[id]\<close> is \<open>undefined\<close> and the id is
  skipped, unless a table inherits the name: then \<open>peer\<close> is the inherited value,
  \<open>peer.channel\<close> is \<open>undefined\<close>, nothing is handed over, and the read of
  \<open>chan.bufferedAmount\<close> raises inside the callback, whose promise is rejected.
\<close>

definition sendTo ::
  "(string \<Rightarrow> nat \<Rightarrow> bool) \<Rightarrow> nat option \<Rightarrow> 'j jsmeta \<Rightarrow> bytes list \<Rightarrow> 'j room \<Rightarrow> string \<Rightarrow> 'j room" where
  "sendTo online onProg m cs st pid =
     (if pid \<in> set (peerMap st)
      then let out = sendLoop (online pid) 0 cs
           in st\<lparr>sent := sent st @ map (Pair pid) out,
                 calls := calls st @ senderCalls onProg pid m out\<rparr>
      else st)"

definition targetFails :: "'j room \<Rightarrow> string \<Rightarrow> bool" where
  "targetFails st pid = (pid \<notin> set (peerMap st) \<and> inherits st pid)"

text \<open>
  \<open>transmit\<close> is \<open>send\<close> from line 117 on, for the closure \<open>a\<close> of the action
  \<open>name\<close>: the fragments are built, the nonce is advanced, and the fragments are handed
  to the targets. The loops of the targets are independent; the traces record them one
  target after the other, each in the order of its frames, which is the order of a run
  in which no channel makes a loop wait (waiting interleaves the loops of different
  targets and keeps the order within each). Every channel is taken to drain, so that
  each loop ends. The promise is that of \<open>Promise.all\<close>: rejected if the callback of
  one target is, fulfilled otherwise.
\<close>

definition transmit ::
  "'j utils \<Rightarrow> (string \<Rightarrow> nat \<Rightarrow> bool) \<Rightarrow> 'j room \<Rightarrow> string \<Rightarrow> action \<Rightarrow> 'j jsdata \<Rightarrow> targets \<Rightarrow>
   'j jsmeta \<Rightarrow> nat option \<Rightarrow> unit promise \<times> 'j room" where
  "transmit U online st name a d tg m onProg =
     (case buildChunks U a d m of
        Inl e \<Rightarrow> (Rejected e, st)
      | Inr cs \<Rightarrow>
          let st1 = st\<lparr>actions :=
                       (actions st)(name \<mapsto> a\<lparr>nonce := (nonce a + 1) AND oneByteMax\<rparr>)\<rparr>;
              ids = targetIds st1 tg
          in (if list_ex (targetFails st1) ids then Rejected UndefinedRead else Fulfilled (),
              foldl (sendTo online onProg m cs) st1 ids))"

text \<open>
  \<open>send\<close> is an \<open>async\<close> function of the closure of action \<open>name\<close>. Where the table
  holds no such action there is no function to call. After the checks, a \<open>Blob\<close> is
  read first (\<open>await data.arrayBuffer()\<close>): the call returns a pending promise and
  goes on in \<open>blobRead\<close>; for other data the call goes on at once.
\<close>

definition send ::
  "'j utils \<Rightarrow> (string \<Rightarrow> nat \<Rightarrow> bool) \<Rightarrow> 'j room \<Rightarrow> string \<Rightarrow> 'j jsdata \<Rightarrow> targets \<Rightarrow>
   'j jsmeta \<Rightarrow> nat option \<Rightarrow> unit promise outcome \<times> 'j room" where
  "send U online st name d tg m onProg =
     (case actions st name of
        None \<Rightarrow> (Throws NotAFunction, st)
      | Some a \<Rightarrow>
          (case checkArgs d m of
             Some e \<Rightarrow> (async (Inl e), st)
           | None \<Rightarrow>
               if isBlob d
               then (Returns Pending,
                     st\<lparr>blobReads := blobReads st @
                          [(name, \<lparr>reqData = d, reqTargets = tg, reqMeta = m,
                                   reqOnProgress = onProg\<rparr>)]\<rparr>)
               else (case transmit U online st name a d tg m onProg of
                       (p, st1) \<Rightarrow> (Returns p, st1))))"

text \<open>
  The \<open>k\<close>-th of the waiting calls gets its bytes and goes on, with the closure as it
  is by then; the result is what its promise settles to. There is no such event where
  fewer calls wait.
\<close>

definition blobRead ::
  "'j utils \<Rightarrow> (string \<Rightarrow> nat \<Rightarrow> bool) \<Rightarrow> 'j room \<Rightarrow> nat \<Rightarrow> (unit promise \<times> 'j room) option" where
  "blobRead U online st k =
     (if k < length (blobReads st)
      then (let name = fst (blobReads st ! k);
                r = snd (blobReads st ! k);
                st0 = st\<lparr>blobReads := take k (blobReads st) @ drop (Suc k) (blobReads st)\<rparr>
            in case actions st name of
                 None \<Rightarrow> None
               | Some a \<Rightarrow>
                   Some (transmit U online st0 name a (reqData r) (reqTargets r) (reqMeta r)
                           (reqOnProgress r)))
      else None)"

subsection \<open>handleData\<close>

definition decodeType :: "'j utils \<Rightarrow> bytes \<Rightarrow> string" where
  "decodeType U buffer =
     filter (\<lambda>c. c \<noteq> CHR 0x00) (decodeBytes U (subarray buffer typeIndex nonceIndex))"

definition tagOf :: "bytes \<Rightarrow> byte" where
  "tagOf buffer = (case byteAt buffer tagIndex of None \<Rightarrow> 0 | Some t \<Rightarrow> t)"

definition payloadOf :: "bytes \<Rightarrow> bytes" where
  "payloadOf buffer = subarray buffer payloadIndex (length buffer)"

definition newTarget :: "'j target" where
  "newTarget = \<lparr>chunks = [], meta = None\<rparr>"

text \<open>
  The tables of the room for one peer and for one type of a peer, read with the defaults
  the \<open>||=\<close> assignments install.
\<close>

definition perPeer :: "'j room \<Rightarrow> string \<Rightarrow> (string \<rightharpoonup> (byte option \<rightharpoonup> 'j target))" where
  "perPeer st pid = (case pendingTransmissions st pid of None \<Rightarrow> Map.empty | Some m \<Rightarrow> m)"

definition perType :: "'j room \<Rightarrow> string \<Rightarrow> string \<Rightarrow> (byte option \<rightharpoonup> 'j target)" where
  "perType st pid type = (case perPeer st pid type of None \<Rightarrow> Map.empty | Some m \<Rightarrow> m)"

text \<open>
  \<open>tableOf\<close> is the object that \<open>pendingTransmissions[id][type]\<close> evaluates to once
  the first \<open>||=\<close> has made \<open>pendingTransmissions[id]\<close> a table of the room: the
  table of the room for that type, or, when there is none yet and a table inherits the
  name, the inherited object (then the second \<open>||=\<close> creates nothing). \<open>slots\<close>
  are the pending transmissions an object holds as its own properties. \<open>slotTable\<close>
  is the object on which the read \<open>table[nonce]\<close> finds its value: the table itself
  or, when it has no such property and \<open>Object.prototype\<close> has, the prototype; where
  neither has, the third \<open>||=\<close> creates the property on the table.
\<close>

datatype table = OwnTable string string | InheritedObject string

definition tableOf :: "'j room \<Rightarrow> string \<Rightarrow> string \<Rightarrow> table" where
  "tableOf st pid type =
     (if perPeer st pid type = None \<and> inherits st type then InheritedObject type
      else OwnTable pid type)"

definition slots :: "'j room \<Rightarrow> table \<Rightarrow> (byte option \<rightharpoonup> 'j target)" where
  "slots st x =
     (case x of
        OwnTable pid type \<Rightarrow> perType st pid type
      | InheritedObject k \<Rightarrow> inherited st k)"

definition slotTable :: "'j room \<Rightarrow> table \<Rightarrow> byte option \<Rightarrow> table" where
  "slotTable st x k =
     (if slots st x k = None \<and> inherited st protoKey k \<noteq> None then InheritedObject protoKey
      else x)"

definition pendingAt :: "'j room \<Rightarrow> string \<Rightarrow> string \<Rightarrow> byte option \<Rightarrow> 'j target option" where
  "pendingAt st pid type k = slots st (slotTable st (tableOf st pid type) k) k"

definition targetAt :: "'j room \<Rightarrow> string \<Rightarrow> string \<Rightarrow> byte option \<Rightarrow> 'j target" where
  "targetAt st pid type k = (case pendingAt st pid type k of None \<Rightarrow> newTarget | Some t \<Rightarrow> t)"

definition setSlots :: "'j room \<Rightarrow> table \<Rightarrow> (byte option \<rightharpoonup> 'j target) \<Rightarrow> 'j room" where
  "setSlots st x s =
     (case x of
        OwnTable pid type \<Rightarrow>
          st\<lparr>pendingTransmissions := (pendingTransmissions st)(pid \<mapsto> (perPeer st pid)(type \<mapsto> s))\<rparr>
      | InheritedObject k \<Rightarrow> st\<lparr>inherited := (inherited st)(k := s)\<rparr>)"

text \<open>
  \<open>ensureTables\<close> is the effect of the first two \<open>||=\<close>. \<open>storeTarget\<close> is their
  effect and that of the third together with the update of the pending transmission:
  the record \<open>t\<close> is what the object \<open>target\<close> holds afterwards, at the place where
  the read found it or the assignment created it. \<open>deleteTarget\<close> is
  \<open>delete pendingTransmissions[id][type][nonce]\<close>, which removes a property of the
  table itself and leaves what the table inherits.
\<close>

definition ensureTables :: "'j room \<Rightarrow> string \<Rightarrow> string \<Rightarrow> 'j room" where
  "ensureTables st pid type =
     (case tableOf st pid type of
        OwnTable p t \<Rightarrow> setSlots st (OwnTable pid type) (perType st pid type)
      | InheritedObject k \<Rightarrow>
          st\<lparr>pendingTransmissions := (pendingTransmissions st)(pid \<mapsto> perPeer st pid)\<rparr>)"

definition storeTarget :: "'j room \<Rightarrow> string \<Rightarrow> string \<Rightarrow> byte option \<Rightarrow> 'j target \<Rightarrow> 'j room" where
  "storeTarget st pid type k t =
     (let st0 = ensureTables st pid type;
          x = slotTable st0 (tableOf st0 pid type) k
      in setSlots st0 x ((slots st0 x)(k \<mapsto> t)))"

definition deleteTarget :: "'j room \<Rightarrow> string \<Rightarrow> string \<Rightarrow> byte option \<Rightarrow> 'j room" where
  "deleteTarget st pid type k =
     (let x = tableOf st pid type in setSlots st x ((slots st x)(k := None)))"

text \<open>
  \<open>handleData\<close> returns the exception it raised, if any, and the room as it stands at
  that point. When \<open>actions[type]\<close> is an inherited value the guard does not fire: the
  tables are set up, the fragment is stored, and the call of \<open>onProgress\<close>, which is
  \<open>undefined\<close> on such a value, raises.

  The result is \<open>None\<close>, and the model says nothing, where
  \<open>pendingTransmissions[id]\<close> itself is an inherited value. This cannot be for a
  name that \<open>Object.prototype\<close> has from the start, since \<open>handleData\<close> is bound to
  an id only after \<open>peerMap[id]\<close> was found falsy (line 270). It is so for a peer
  whose id is the key of a pending transmission stored on \<open>Object.prototype\<close> (a
  numeral up to 255, or \<open>undefined\<close>) before the room has a table for the peer; the
  reads that follow reach arrays and decoded JSON values, which the model does not
  represent.
\<close>

definition plainPeer :: "'j room \<Rightarrow> string \<Rightarrow> bool" where
  "plainPeer st pid = (if pendingTransmissions st pid = None then \<not> inherits st pid else True)"

definition handleData ::
  "'j utils \<Rightarrow> 'j room \<Rightarrow> string \<Rightarrow> bytes \<Rightarrow> (error option \<times> 'j room) option" where
  "handleData U st pid buffer =
     (let type = decodeType U buffer;
          nonceV = byteAt buffer nonceIndex;
          tag = tagOf buffer;
          progress = progressOf buffer;
          payload = payloadOf buffer;
          isLast = (tag AND 1 \<noteq> 0);
          isMeta = (tag AND push_bit 1 1 \<noteq> 0);
          isBinary = (tag AND push_bit 2 1 \<noteq> 0);
          isJson = (tag AND push_bit 3 1 \<noteq> 0)
      in case getProp (inherits st) (actions st) type of
           Absent \<Rightarrow> Some (Some (UnregisteredType type), st)
         | found \<Rightarrow>
             if \<not> plainPeer st pid then None
             else
               (let target0 = targetAt st pid type nonceV
                in case (if isMeta
                         then (case fromJson U (decodeBytes U payload) of
                                 None \<Rightarrow> Inl SyntaxError
                               | Some v \<Rightarrow> Inr (target0\<lparr>meta := Some v\<rparr>))
                         else Inr (target0\<lparr>chunks := chunks target0 @ [payload]\<rparr>)) of
                     Inl e \<Rightarrow> Some (Some e, storeTarget st pid type nonceV target0)
                   | Inr target1 \<Rightarrow>
                       (case found of
                          Own a \<Rightarrow>
                            (let st1 = (storeTarget st pid type nonceV target1)
                                         \<lparr>calls := calls st @
                                            [ActionProgress (onProgress a) progress pid (meta target1)]\<rparr>
                             in if \<not> isLast then Some (None, st1)
                                else
                                  let full = concat (chunks target1);
                                      st2 = deleteTarget st1 pid type nonceV
                                  in if isBinary
                                     then Some (None, st2\<lparr>calls := calls st2 @
                                             [ActionComplete (onComplete a) (Bytes full) pid (meta target1)]\<rparr>)
                                     else
                                       let text = decodeBytes U full
                                       in if isJson
                                          then (case fromJson U text of
                                                  None \<Rightarrow> Some (Some SyntaxError, st2)
                                                | Some v \<Rightarrow>
                                                    Some (None, st2\<lparr>calls := calls st2 @
                                                       [ActionComplete (onComplete a) (Json v) pid None]\<rparr>))
                                          else Some (None, st2\<lparr>calls := calls st2 @
                                                  [ActionComplete (onComplete a) (Text text) pid None]\<rparr>))
                        | other \<Rightarrow> Some (Some NotAFunction, storeTarget st pid type nonceV target1))))"


subsection \<open>ping\<close>

text \<open>
  \<open>ping\<close> is \<open>async\<close>. With a target it sends an empty string on the first internal
  action, stores the resolver under the peer's id and stays pending until the pong. For
  the id \<open>__proto__\<close> the assignment stores no property (it sets the prototype of the
  table).
\<close>

definition ping ::
  "'j utils \<Rightarrow> (string \<Rightarrow> nat \<Rightarrow> bool) \<Rightarrow> 'j room \<Rightarrow> string option \<Rightarrow> nat promise outcome \<times> 'j room" where
  "ping U online st pid =
     (case pid of
        None \<Rightarrow> (async (Inl PingNeedsTarget), st)
      | Some i \<Rightarrow>
          if i = [] then (async (Inl PingNeedsTarget), st)
          else
            (case send U online st ''__91n6__'' (DString []) (OneTarget i) MetaFalsy None of
               (Throws e, st1) \<Rightarrow> (async (Inl e), st1)
             | (Returns p, st1) \<Rightarrow>
                 (Returns Pending,
                  if i = protoKey then st1
                  else st1\<lparr>pendingPongs := List.insert i (pendingPongs st1)\<rparr>)))"

subsection \<open>An instance of the utilities\<close>

text \<open>
  Modelled from the spec: \<open>utils.js\<close> is missing; the spec says that strings are sent
  as UTF-8 text as they are and other values as JSON text. In this instance a string
  is its sequence of UTF-8 bytes, so that encoding and decoding only change the type,
  and a JSON value is represented by its JSON text. It serves to run the model on
  concrete inputs.
\<close>

definition textUtils :: "string utils" where
  "textUtils = \<lparr>encodeBytes = map (\<lambda>c. of_nat (of_char c)),
                 decodeBytes = map (\<lambda>b. char_of (unat b)),
                 toJson = (\<lambda>v. v),
                 fromJson = Some\<rparr>"

subsection \<open>The fragments in closed form\<close>

text \<open>
  \<open>slice\<close> is the last argument of the fifth \<open>chunk.set\<close> of \<open>send\<close>, and
  \<open>frameOf\<close> the frame that the five \<open>set\<close> calls build when none of them fails.
\<close>

definition slice :: "bool \<Rightarrow> bytes \<Rightarrow> bytes \<Rightarrow> nat \<Rightarrow> bytes" where
  "slice hasMeta metaEncoded buffer i =
     (if hasMeta
      then if i = 0 then metaEncoded
           else subarray buffer ((i - 1) * chunkSize) (i * chunkSize)
      else subarray buffer (i * chunkSize) ((i + 1) * chunkSize))"

definition frameOf ::
  "bytes \<Rightarrow> nat \<Rightarrow> bool \<Rightarrow> bool \<Rightarrow> bool \<Rightarrow> bytes \<Rightarrow> bytes \<Rightarrow> nat \<Rightarrow> nat \<Rightarrow> bytes" where
  "frameOf padded nonceV hasMeta isBinary isJson metaEncoded buffer count i =
     padded @
     [of_nat nonceV, tagByte (i = count - 1) (hasMeta \<and> i = 0) isBinary isJson,
      of_nat (progressByte i count)] @
     slice hasMeta metaEncoded buffer i"

text \<open>
  The arguments for which \<open>send\<close> builds frames (they pass the three checks, and
  the data are not an array of \<open>BigInt\<close>s), and the frames it then builds.
\<close>

definition validArgs :: "'j jsdata \<Rightarrow> 'j jsmeta \<Rightarrow> bool" where
  "validArgs d m \<longleftrightarrow>
     m \<noteq> MetaOther \<and> d \<noteq> DUndefined \<and> (truthyMeta m \<longrightarrow> isBinaryData d) \<and> \<not> isBigInts d"

definition framesOf :: "'j utils \<Rightarrow> action \<Rightarrow> 'j jsdata \<Rightarrow> 'j jsmeta \<Rightarrow> bytes list" where
  "framesOf U a d m =
     (let count = chunkTotal (length (bufferOf U d)) (truthyMeta m)
      in map (frameOf (typeBytesPadded a) (nonce a) (truthyMeta m) (isBinaryData d)
                (isJsonData d) (metaEncodedOf U m) (bufferOf U d) count) [0..<count])"

text \<open>
  What \<open>makeAction\<close> establishes for the closure of the action \<open>name\<close>, and every
  later operation keeps: the padded type bytes and a counter below 256.
\<close>

definition actionFor :: "'j utils \<Rightarrow> string \<Rightarrow> action \<Rightarrow> bool" where
  "actionFor U name a \<longleftrightarrow>
     length (encodeBytes U name) \<le> typeByteLimit \<and>
     typeBytesPadded a =
       encodeBytes U name @ replicate (typeByteLimit - length (encodeBytes U name)) 0 \<and>
     nonce a < 256"

subsection \<open>Concrete inputs\<close>

text \<open>
  The closure of an action named \<open>binary\<close> as \<open>makeAction\<close> leaves it under
  \<open>textUtils\<close>, for running \<open>send\<close> on concrete arguments.
\<close>

definition binaryAction :: action where
  "binaryAction = \<lparr>onComplete = noOp, onProgress = noOp, closureId = 0,
     typeBytesPadded = [98, 105, 110, 97, 114, 121, 0, 0, 0, 0, 0, 0], nonce = 0\<rparr>"

text \<open>The JSON text of an object with one long string member.\<close>

definition bigMeta :: string where
  "bigMeta = [CHR ''{'', CHR 0x22, CHR ''k'', CHR 0x22, CHR '':'', CHR 0x22] @
             replicate 16370 (CHR ''x'') @ [CHR 0x22, CHR ''}'']"

subsection \<open>Runs of send\<close>

text \<open>
  The events that concern the sending side: a call of the \<open>send\<close> of an action,
  and the end of the reading of the \<open>Blob\<close> of the \<open>k\<close>-th waiting call.
  \<open>resumed\<close> is the call that an event takes to line 117, if any, and
  \<open>fragmentsOf\<close> the frames that the event then builds for the action \<open>name\<close>.
  \<open>built\<close> lists the frames built for the action in a run of events, in the order
  in which they are built.
\<close>

datatype 'j event = Call string "'j request" | BlobRead nat

definition step :: "'j utils \<Rightarrow> (string \<Rightarrow> nat \<Rightarrow> bool) \<Rightarrow> 'j room \<Rightarrow> 'j event \<Rightarrow> 'j room" where
  "step U online st e =
     (case e of
        Call name r \<Rightarrow>
          snd (send U online st name (reqData r) (reqTargets r) (reqMeta r) (reqOnProgress r))
      | BlobRead k \<Rightarrow> (case blobRead U online st k of None \<Rightarrow> st | Some x \<Rightarrow> snd x))"

definition resumed :: "'j room \<Rightarrow> 'j event \<Rightarrow> (string \<times> 'j request) option" where
  "resumed st e =
     (case e of
        Call name r \<Rightarrow>
          if checkArgs (reqData r) (reqMeta r) = None \<and> \<not> isBlob (reqData r)
          then Some (name, r) else None
      | BlobRead k \<Rightarrow> if k < length (blobReads st) then Some (blobReads st ! k) else None)"

definition fragmentsOf :: "'j utils \<Rightarrow> 'j room \<Rightarrow> string \<Rightarrow> 'j event \<Rightarrow> bytes list option" where
  "fragmentsOf U st name e =
     (case resumed st e of
        None \<Rightarrow> None
      | Some c \<Rightarrow>
          if fst c = name
          then (case actions st name of
                  None \<Rightarrow> None
                | Some a \<Rightarrow>
                    (case buildChunks U a (reqData (snd c)) (reqMeta (snd c)) of
                       Inl e \<Rightarrow> None
                     | Inr cs \<Rightarrow> Some cs))
          else None)"

fun built ::
  "'j utils \<Rightarrow> (string \<Rightarrow> nat \<Rightarrow> bool) \<Rightarrow> 'j room \<Rightarrow> string \<Rightarrow> 'j event list \<Rightarrow> bytes list list" where
  "built U online st name [] = []"
| "built U online st name (e # es) =
     (case fragmentsOf U st name e of None \<Rightarrow> [] | Some cs \<Rightarrow> [cs]) @
     built U online (step U online st e) name es"

text \<open>
  A room in which \<open>makeAction\<close> has been called once, for the name \<open>binary\<close>, the room
  that the exported function returns under \<open>textUtils\<close>, and two requests: a short
  string and a \<open>Blob\<close> of three bytes, each for every peer.
\<close>

definition binaryRoom :: "string room" where
  "binaryRoom =
     (case makeAction textUtils emptyRoom (Some ''binary'') of
        Inr r \<Rightarrow> snd r
      | Inl e \<Rightarrow> emptyRoom)"

definition mainRoom :: "string room" where
  "mainRoom = (case newRoom textUtils of Inr r \<Rightarrow> snd r | Inl e \<Rightarrow> emptyRoom)"

definition helloRequest :: "string request" where
  "helloRequest = \<lparr>reqData = DString ''hi'', reqTargets = NoTargets, reqMeta = MetaFalsy,
     reqOnProgress = None\<rparr>"

definition blobRequest :: "string request" where
  "blobRequest = \<lparr>reqData = DBlob [1, 2, 3], reqTargets = NoTargets, reqMeta = MetaFalsy,
     reqOnProgress = None\<rparr>"

definition internalHandles :: "handles list" where
  "internalHandles = (case newRoom textUtils of Inr r \<Rightarrow> fst r | Inl e \<Rightarrow> [])"

subsection \<open>The second half of handleData\<close>

text \<open>
  \<open>deliver\<close> is \<open>handleData\<close> from the call of the progress callback on, for the
  action \<open>a\<close> and the pending transmission \<open>target1\<close> as it is after the fragment
  has been stored.
\<close>

definition deliver ::
  "'j utils \<Rightarrow> 'j room \<Rightarrow> string \<Rightarrow> action \<Rightarrow> string \<Rightarrow> byte option \<Rightarrow> bool \<Rightarrow> bool \<Rightarrow> bool \<Rightarrow>
   rat option \<Rightarrow> 'j target \<Rightarrow> error option \<times> 'j room" where
  "deliver U st pid a type nonceV isLast isBinary isJson progress target1 =
     (let st1 = (storeTarget st pid type nonceV target1)
                  \<lparr>calls := calls st @
                     [ActionProgress (onProgress a) progress pid (meta target1)]\<rparr>
      in if \<not> isLast then (None, st1)
         else
           let full = concat (chunks target1);
               st2 = deleteTarget st1 pid type nonceV
           in if isBinary
              then (None, st2\<lparr>calls := calls st2 @
                      [ActionComplete (onComplete a) (Bytes full) pid (meta target1)]\<rparr>)
              else
                let text = decodeBytes U full
                in if isJson
                   then (case fromJson U text of
                           None \<Rightarrow> (Some SyntaxError, st2)
                         | Some v \<Rightarrow>
                             (None, st2\<lparr>calls := calls st2 @
                                [ActionComplete (onComplete a) (Json v) pid None]\<rparr>))
                   else (None, st2\<lparr>calls := calls st2 @
                           [ActionComplete (onComplete a) (Text text) pid None]\<rparr>))"

subsection \<open>The bits of the tag\<close>

definition isLastFrame :: "bytes \<Rightarrow> bool" where
  "isLastFrame f \<longleftrightarrow> bit (tagOf f) 0"

definition isMetaFrame :: "bytes \<Rightarrow> bool" where
  "isMetaFrame f \<longleftrightarrow> bit (tagOf f) 1"

definition isBinaryFrame :: "bytes \<Rightarrow> bool" where
  "isBinaryFrame f \<longleftrightarrow> bit (tagOf f) 2"

definition isJsonFrame :: "bytes \<Rightarrow> bool" where
  "isJsonFrame f \<longleftrightarrow> bit (tagOf f) 3"

subsection \<open>What a transmission delivers\<close>


definition deliveredOf :: "'j jsdata \<Rightarrow> 'j delivered" where
  "deliveredOf d =
     (case d of
        DString s \<Rightarrow> Text s
      | DJson v \<Rightarrow> Json v
      | DBlob b \<Rightarrow> Bytes b
      | DBuffer b \<Rightarrow> Bytes b
      | DTyped xs \<Rightarrow> Bytes (map toUint8 xs)
      | DBigInts xs \<Rightarrow> Bytes []
      | DUndefined \<Rightarrow> Text [])"




subsection \<open>Reading the traces\<close>

text \<open>
  The progress values passed to the callback given to \<open>send\<close> for one target, the
  progress values passed to the callback of an action, and the frames handed to the
  channel of one peer.
\<close>

fun senderValue :: "string \<Rightarrow> 'j call \<Rightarrow> rat option list" where
  "senderValue pid (SenderProgress f p i m) = (if i = pid then [p] else [])"
| "senderValue pid (ActionProgress f p i mv) = []"
| "senderValue pid (ActionComplete f v i mv) = []"

definition senderValues :: "string \<Rightarrow> 'j call list \<Rightarrow> rat option list" where
  "senderValues pid cs = concat (map (senderValue pid) cs)"

fun receiverValue :: "'j call \<Rightarrow> rat option list" where
  "receiverValue (ActionProgress f p i mv) = [p]"
| "receiverValue (SenderProgress f p i m) = []"
| "receiverValue (ActionComplete f v i mv) = []"

definition receiverValues :: "'j call list \<Rightarrow> rat option list" where
  "receiverValues cs = concat (map receiverValue cs)"

definition sentTo :: "string \<Rightarrow> 'j room \<Rightarrow> bytes list" where
  "sentTo pid st = map snd (filter (\<lambda>x. fst x = pid) (sent st))"

text \<open>The room \<open>binaryRoom\<close> with one registered peer, and with two.\<close>

definition pairedRoom :: "string room" where
  "pairedRoom = binaryRoom\<lparr>peerMap := [''peer'']\<rparr>"

definition twoPeerRoom :: "string room" where
  "twoPeerRoom = binaryRoom\<lparr>peerMap := [''peer'', ''peer2'']\<rparr>"

text \<open>
  A frame of the action \<open>binary\<close>: nonce 0, tag 5 (last fragment, binary, the JSON
  bit clear), progress 255, and three bytes of payload.
\<close>

definition rawFrame :: bytes where
  "rawFrame = typeBytesPadded binaryAction @ [0, 5, 255, 1, 2, 3]"

text \<open>
  A frame whose type field reads \<open>toString\<close>: nonce 0, tag 1 (last fragment),
  progress 255, no payload.
\<close>

definition toStringFrame :: bytes where
  "toStringFrame = encodeBytes textUtils ''toString'' @ [0, 0, 0, 0] @ [0, 1, 255]"

section \<open>Arithmetic of the fragment count and of the progress byte\<close>

lemmas layout_defs = typeByteLimit_def typeIndex_def nonceIndex_def tagIndex_def
  progressIndex_def payloadIndex_def chunkSize_def oneByteMax_def

lemma layout_values:
  "nonceIndex = 12" "tagIndex = 13" "progressIndex = 14" "payloadIndex = 15" "chunkSize = 16369"
  by (simp_all add: layout_defs)

lemma ceilDiv_nat:
  assumes b: "0 < b"
  shows "ceilDiv a b = (a + b - 1) div b"
proof -
  define q where "q = (a + b - 1) div b"
  define r where "r = (a + b - 1) mod b"
  have split: "a + b - 1 = q * b + r" and r: "r < b"
    using b by (simp_all add: q_def r_def)
  have up: "a \<le> q * b" using split r by linarith
  have lo: "q * b < a + b" using split b by linarith
  have "(of_nat a :: rat) / of_nat b \<le> of_int (int q)"
    using b up by (simp add: divide_le_eq flip: of_nat_mult)
  moreover have "of_int (int q) - 1 < (of_nat a :: rat) / of_nat b"
  proof -
    have "(of_nat (q * b) :: rat) < of_nat (a + b)" using lo by (simp only: of_nat_less_iff)
    then have "(of_nat q - 1) * (of_nat b :: rat) < of_nat a" by (simp add: algebra_simps)
    then show ?thesis using b by (simp add: less_divide_eq)
  qed
  ultimately have "\<lceil>(of_nat a :: rat) / of_nat b\<rceil> = int q" by (rule ceiling_unique[rotated])
  then show ?thesis by (simp add: ceilDiv_def q_def)
qed

lemma progressByte_nat:
  "0 < n \<Longrightarrow> progressByte i n = (2 * ((i + 1) * oneByteMax) + n) div (2 * n)"
proof -
  assume n: "0 < n"
  have "(of_nat (i + 1) :: rat) / of_nat n * of_nat oneByteMax + 1 / 2
      = of_nat (2 * ((i + 1) * oneByteMax) + n) / of_nat (2 * n)"
    using n by (simp add: field_simps)
  then show ?thesis
    unfolding progressByte_def by (simp only: floor_divide_of_nat_eq nat_int)
qed

lemma ceilDiv_upper: "0 < b \<Longrightarrow> a \<le> ceilDiv a b * b"
proof -
  assume b: "0 < b"
  have "a + b - 1 = (a + b - 1) div b * b + (a + b - 1) mod b" by simp
  moreover have "(a + b - 1) mod b < b" using b by simp
  ultimately have "a \<le> (a + b - 1) div b * b" by linarith
  then show ?thesis by (simp add: ceilDiv_nat b)
qed

lemma ceilDiv_lower: "0 < b \<Longrightarrow> 0 < a \<Longrightarrow> (ceilDiv a b - 1) * b < a"
proof -
  assume b: "0 < b" and a: "0 < a"
  have "(a + b - 1) div b * b \<le> a + b - 1" by simp
  then have "(a + b - 1) div b * b - b < a" using a b by linarith
  then show ?thesis by (simp add: ceilDiv_nat b diff_mult_distrib)
qed

lemma ceilDiv_zero: "ceilDiv 0 b = 0"
  by (simp add: ceilDiv_def)

lemma ceilDiv_pos: "0 < b \<Longrightarrow> 0 < a \<Longrightarrow> 0 < ceilDiv a b"
  using ceilDiv_upper [of b a] by (cases "ceilDiv a b") auto

lemma chunkSize_pos: "0 < chunkSize"
  by (simp add: layout_values)

lemma chunkTotal_pos: "0 < chunkTotal len hasMeta"
  by (simp add: chunkTotal_def Let_def)

lemma chunkTotal_meta: "chunkTotal len True = ceilDiv len chunkSize + 1"
  by (simp add: chunkTotal_def Let_def)

lemma chunkTotal_plain:
  "chunkTotal len False = (if len = 0 then 1 else ceilDiv len chunkSize)"
proof (cases "len = 0")
  case True
  then show ?thesis by (simp add: chunkTotal_def Let_def ceilDiv_zero)
next
  case False
  then have "0 < ceilDiv len chunkSize" using ceilDiv_pos [OF chunkSize_pos, of len] by simp
  with False show ?thesis by (simp add: chunkTotal_def Let_def)
qed

section \<open>The fragments that send builds\<close>

lemma length_subarray: "length (subarray b lo hi) = min hi (length b) - lo"
  by (simp add: subarray_def min.commute)

lemma slice_length:
  assumes cnt: "count = chunkTotal (length buffer) hasMeta" and i: "i < count"
  shows "length (slice hasMeta metaEncoded buffer i) =
     (if hasMeta \<and> i = 0 then length metaEncoded
      else if i = count - 1
        then length buffer - chunkSize * (count - (if hasMeta then 2 else 1))
        else chunkSize)"
proof (cases hasMeta)
  case True
  note hm = True
  show ?thesis
  proof (cases "i = 0")
    case True
    with hm show ?thesis by (simp add: slice_def)
  next
    case False
    define D where "D = ceilDiv (length buffer) chunkSize"
    have count: "count = D + 1" using cnt hm by (simp add: chunkTotal_meta D_def)
    have Dpos: "0 < D" using False i count by simp
    then have lenpos: "0 < length buffer"
      using ceilDiv_zero [of chunkSize] by (cases "length buffer = 0") (auto simp: D_def)
    have up: "length buffer \<le> D * chunkSize"
      unfolding D_def by (rule ceilDiv_upper [OF chunkSize_pos])
    have lo: "(D - 1) * chunkSize < length buffer"
      unfolding D_def by (rule ceilDiv_lower [OF chunkSize_pos lenpos])
    show ?thesis
    proof (cases "i = count - 1")
      case True
      then have iD: "i = D" using count by simp
      show ?thesis using hm False iD count up lo
        by (simp add: slice_def length_subarray min_absorb2 mult.commute)
    next
      case notlast: False
      then have "i \<le> D - 1" using i count by simp
      then have "i * chunkSize \<le> (D - 1) * chunkSize" by (rule mult_le_mono1)
      then have "i * chunkSize < length buffer" using lo by (rule le_less_trans)
      then show ?thesis using hm False notlast
        by (simp add: slice_def length_subarray min_absorb1 diff_mult_distrib)
    qed
  qed
next
  case False
  note hm = False
  show ?thesis
  proof (cases "length buffer = 0")
    case True
    then have "count = 1" using cnt hm by (simp add: chunkTotal_plain)
    then show ?thesis using hm True i by (simp add: slice_def length_subarray)
  next
    case False
    define D where "D = ceilDiv (length buffer) chunkSize"
    have count: "count = D" using cnt hm False by (simp add: chunkTotal_plain D_def)
    have up: "length buffer \<le> D * chunkSize"
      unfolding D_def by (rule ceilDiv_upper [OF chunkSize_pos])
    have lo: "(D - 1) * chunkSize < length buffer"
      unfolding D_def using False by (intro ceilDiv_lower [OF chunkSize_pos]) simp
    show ?thesis
    proof (cases "i = count - 1")
      case True
      then have "Suc i = D" using count i by simp
      then have "(i + 1) * chunkSize = D * chunkSize" by simp
      then show ?thesis using hm True count up lo
        by (simp add: slice_def length_subarray min_absorb2 mult.commute del: mult_Suc)
    next
      case notlast: False
      then have "i + 1 \<le> D - 1" using i count by simp
      then have "(i + 1) * chunkSize \<le> (D - 1) * chunkSize" by (rule mult_le_mono1)
      then have "(i + 1) * chunkSize < length buffer" using lo by (rule le_less_trans)
      then show ?thesis using hm notlast
        by (simp add: slice_def length_subarray min_absorb1)
    qed
  qed
qed

lemma build_frame:
  assumes "length padded = 12"
  shows "bindE (u8set (replicate (15 + length p) 0) padded 0) (\<lambda>c1.
         bindE (u8set c1 [n] 12) (\<lambda>c2.
         bindE (u8set c2 [t] 13) (\<lambda>c3.
         bindE (u8set c3 [g] 14) (\<lambda>c4. u8set c4 p 15)))) = Inr (padded @ [n, t, g] @ p)"
proof -
  have 1: "u8set (replicate (15 + length p) 0) padded 0 = Inr (padded @ replicate (3 + length p) 0)"
    using assms by (simp add: u8set_def)
  have 2: "u8set (padded @ replicate (3 + length p) 0) [n] 12 = Inr (padded @ [n] @ replicate (2 + length p) 0)"
    using assms by (simp add: u8set_def)
  have 3: "u8set (padded @ [n] @ replicate (2 + length p) 0) [t] 13 = Inr (padded @ [n, t] @ replicate (1 + length p) 0)"
    using assms by (simp add: u8set_def)
  have 4: "u8set (padded @ [n, t] @ replicate (1 + length p) 0) [g] 14 = Inr (padded @ [n, t, g] @ replicate (length p) 0)"
    using assms by (simp add: u8set_def)
  have 5: "u8set (padded @ [n, t, g] @ replicate (length p) 0) p 15 = Inr (padded @ [n, t, g] @ p)"
    using assms by (simp add: u8set_def)
  show ?thesis by (simp only: 1 2 3 4 5 bindE_def sum.case)
qed

lemma mkChunk_frameOf:
  assumes pad: "length padded = typeByteLimit"
    and cnt: "count = chunkTotal (length buffer) hasMeta" and i: "i < count"
  shows "mkChunk padded nonceV hasMeta isBinary isJson metaEncoded buffer count i =
         Inr (frameOf padded nonceV hasMeta isBinary isJson metaEncoded buffer count i)"
proof -
  have size: "(if hasMeta \<and> i = 0 then length metaEncoded
      else if i = count - 1
        then length buffer - chunkSize * (count - (if hasMeta then 2 else 1))
        else chunkSize) = length (slice hasMeta metaEncoded buffer i)"
    using slice_length [OF cnt i] by simp
  have pay: "(if hasMeta
            then if hasMeta \<and> i = 0 then metaEncoded
                 else subarray buffer ((i - 1) * chunkSize) (i * chunkSize)
            else subarray buffer (i * chunkSize) ((i + 1) * chunkSize))
          = slice hasMeta metaEncoded buffer i"
    by (simp add: slice_def)
  have pad12: "length padded = 12" using pad by (simp add: typeByteLimit_def)
  show ?thesis
    unfolding mkChunk_def Let_def size pay frameOf_def layout_values(1-4)
    by (rule build_frame [OF pad12])
qed

lemma mapE_all_ok: "(\<And>x. x \<in> set xs \<Longrightarrow> f x = Inr (g x)) \<Longrightarrow> mapE f xs = Inr (map g xs)"
  by (induction xs) (simp_all add: bindE_def)

lemma sendChunks_ok:
  assumes "validArgs d m" and "length (typeBytesPadded a) = typeByteLimit"
  shows "sendChunks U a d m = Inr (framesOf U a d m)"
proof -
  have "alloc (chunkTotal (length (bufferOf U d)) (truthyMeta m))
          (mkChunk (typeBytesPadded a) (nonce a) (truthyMeta m) (isBinaryData d) (isJsonData d)
             (metaEncodedOf U m) (bufferOf U d) (chunkTotal (length (bufferOf U d)) (truthyMeta m)))
        = Inr (framesOf U a d m)"
    unfolding alloc_def framesOf_def Let_def
    by (rule mapE_all_ok) (simp add: mkChunk_frameOf [OF assms(2) refl])
  then show ?thesis
    using assms(1) by (simp add: sendChunks_def checkArgs_def buildChunks_def validArgs_def Let_def)
qed

lemma sendChunks_rejects:
  "m = MetaOther \<Longrightarrow> sendChunks U a d m = Inl MetaNotObject"
  "m \<noteq> MetaOther \<Longrightarrow> d = DUndefined \<Longrightarrow> sendChunks U a d m = Inl DataUndefined"
  "m \<noteq> MetaOther \<Longrightarrow> d \<noteq> DUndefined \<Longrightarrow> truthyMeta m \<Longrightarrow> \<not> isBinaryData d \<Longrightarrow>
     sendChunks U a d m = Inl MetaNeedsBinary"
  by (simp_all add: sendChunks_def checkArgs_def)

lemma length_framesOf:
  "length (framesOf U a d m) = chunkTotal (length (bufferOf U d)) (truthyMeta m)"
  by (simp add: framesOf_def Let_def)

lemma nth_framesOf:
  "i < chunkTotal (length (bufferOf U d)) (truthyMeta m) \<Longrightarrow>
   framesOf U a d m ! i =
     frameOf (typeBytesPadded a) (nonce a) (truthyMeta m) (isBinaryData d) (isJsonData d)
       (metaEncodedOf U m) (bufferOf U d) (chunkTotal (length (bufferOf U d)) (truthyMeta m)) i"
  by (simp add: framesOf_def Let_def)

section \<open>Reading a frame back\<close>

lemma tagByte_bits:
  "tagByte l m b j AND 1 \<noteq> 0 \<longleftrightarrow> l"
  "tagByte l m b j AND push_bit 1 1 \<noteq> 0 \<longleftrightarrow> m"
  "tagByte l m b j AND push_bit 2 1 \<noteq> 0 \<longleftrightarrow> b"
  "tagByte l m b j AND push_bit 3 1 \<noteq> 0 \<longleftrightarrow> j"
  by (cases l; cases m; cases b; cases j; simp add: tagByte_def)+

lemma progressByte_le: "i < n \<Longrightarrow> progressByte i n \<le> oneByteMax"
proof -
  assume i: "i < n"
  then have n: "0 < n" by simp
  have "(i + 1) * oneByteMax \<le> n * oneByteMax" using i by (intro mult_le_mono1) simp
  then have "2 * ((i + 1) * oneByteMax) + n < (oneByteMax + 1) * (2 * n)" using n by (simp add: algebra_simps)
  then have "(2 * ((i + 1) * oneByteMax) + n) div (2 * n) < oneByteMax + 1"
    using n by (simp add: less_mult_imp_div_less)
  then show ?thesis by (simp add: progressByte_nat [OF n])
qed


lemma progressByte_mono: "0 < n \<Longrightarrow> i \<le> j \<Longrightarrow> progressByte i n \<le> progressByte j n"
  by (simp add: progressByte_nat div_le_mono)

lemma frame_parts:
  fixes f
  assumes "length padded = typeByteLimit"
    and f_def: "f = frameOf padded nonceV hasMeta isBinary isJson metaEncoded buffer count i"
  shows "subarray f typeIndex nonceIndex = padded"
    and "byteAt f nonceIndex = Some (of_nat nonceV)"
    and "tagOf f = tagByte (i = count - 1) (hasMeta \<and> i = 0) isBinary isJson"
    and "byteAt f progressIndex = Some (of_nat (progressByte i count))"
    and "payloadOf f = slice hasMeta metaEncoded buffer i"
  using assms(1)
  by (simp_all add: f_def frameOf_def subarray_def byteAt_def tagOf_def payloadOf_def
      layout_defs nth_append)

lemma unsigned_byte_of_nat:
  "k < 256 \<Longrightarrow> (of_nat (unat (of_nat k :: byte)) :: rat) = of_nat k"
  by (simp add: unsigned_of_nat take_bit_nat_eq_self)

lemma frame_progress:
  assumes "length padded = typeByteLimit" and "i < count"
  shows "progressOf (frameOf padded nonceV hasMeta isBinary isJson metaEncoded buffer count i)
         = Some (of_nat (progressByte i count) / of_nat oneByteMax)"
proof -
  have "progressByte i count < 256" using progressByte_le [OF assms(2)] by (simp add: oneByteMax_def)
  then show ?thesis
    by (simp only: progressOf_def frame_parts(4) [OF assms(1) refl] option.map unsigned_byte_of_nat)
qed

section \<open>Registration\<close>

lemma actionFor_length: "actionFor U name a \<Longrightarrow> length (typeBytesPadded a) = typeByteLimit"
  by (simp add: actionFor_def)

lemma tag_bit_iff: "bit (t :: byte) k \<longleftrightarrow> t AND push_bit k 1 \<noteq> 0"
  by (rule bit_iff_and_push_bit_not_eq_0)

lemma tagByte_bit:
  "bit (tagByte l m b j) 0 \<longleftrightarrow> l"
  "bit (tagByte l m b j) 1 \<longleftrightarrow> m"
  "bit (tagByte l m b j) 2 \<longleftrightarrow> b"
  "bit (tagByte l m b j) 3 \<longleftrightarrow> j"
  using tagByte_bits [of l m b j] by (simp_all add: tag_bit_iff)

lemma makeAction_new:
  assumes "getProp (inherits st) (actions st) name = Absent" and "name \<noteq> []"
    and "length (encodeBytes U name) \<le> typeByteLimit"
  shows "makeAction U st (Some name) =
    Inr (handlesOf \<lparr>onComplete = noOp, onProgress = noOp, closureId = nextClosure st,
           typeBytesPadded = encodeBytes U name @
             replicate (typeByteLimit - length (encodeBytes U name)) 0, nonce = 0\<rparr>,
         st\<lparr>actions := (actions st)(name \<mapsto>
               \<lparr>onComplete = noOp, onProgress = noOp, closureId = nextClosure st,
                typeBytesPadded = encodeBytes U name @
                  replicate (typeByteLimit - length (encodeBytes U name)) 0, nonce = 0\<rparr>),
            nextClosure := Suc (nextClosure st)\<rparr>)"
  using assms by (simp add: makeAction_def propertyKey_def u8set_def bindE_def Let_def)

lemma makeAction_memo:
  "actions st name = Some a \<Longrightarrow> makeAction U st (Some name) = Inr (handlesOf a, st)"
  by (simp add: makeAction_def propertyKey_def getProp_def)

lemma makeAction_rejects:
  assumes "getProp (inherits st) (actions st) name = Absent"
  shows "name = [] \<Longrightarrow> makeAction U st (Some name) = Inl ActionTypeRequired"
    and "name \<noteq> [] \<Longrightarrow> typeByteLimit < length (encodeBytes U name) \<Longrightarrow>
         makeAction U st (Some name) = Inl (ActionTypeTooLong name (length (encodeBytes U name)))"
  using assms by (simp_all add: makeAction_def propertyKey_def Let_def)

lemma makeAction_missing:
  "getProp (inherits st) (actions st) ''undefined'' = Absent \<Longrightarrow> makeAction U st None = Inl ActionTypeRequired"
  by (simp add: makeAction_def propertyKey_def)

lemma makeAction_created:
  assumes "makeAction U st (Some name) = Inr (h, st')" and "getProp (inherits st) (actions st) name = Absent"
  shows "\<exists>a. actions st' name = Some a \<and> actionFor U name a \<and> nonce a = 0 \<and> h = handlesOf a
           \<and> closureId a = nextClosure st
           \<and> (\<forall>other. other \<noteq> name \<longrightarrow> actions st' other = actions st other)"
proof -
  have ne: "name \<noteq> []" using assms by (auto simp: makeAction_def propertyKey_def)
  have le: "length (encodeBytes U name) \<le> typeByteLimit"
    using assms ne by (auto simp: makeAction_def propertyKey_def Let_def split: if_splits)
  show ?thesis
    using assms(1) unfolding makeAction_new [OF assms(2) ne le]
    by (auto simp: actionFor_def le)
qed

section \<open>The frame layout and the fragment count\<close>

lemma tagByte_less: "tagByte l m b j < 16"
  by (cases l; cases m; cases b; cases j; simp add: tagByte_def)

lemma slice_data_le:
  "\<not> (hasMeta \<and> i = 0) \<Longrightarrow> length (slice hasMeta metaEncoded buffer i) \<le> chunkSize"
  by (auto simp add: slice_def length_subarray diff_mult_distrib)

lemma replicate_numeral: "replicate (numeral k) x = x # replicate (pred_numeral k) x"
  by (simp add: numeral_eq_Suc)

lemma binaryAction_ok: "actionFor textUtils ''binary'' binaryAction"
  by (simp add: actionFor_def textUtils_def binaryAction_def typeByteLimit_def replicate_numeral)

lemma frames_exist:
  assumes "actionFor U name a" and "validArgs d m"
  shows "sendChunks U a d m = Inr (framesOf U a d m)"
  by (rule sendChunks_ok [OF assms(2) actionFor_length [OF assms(1)]])

lemma frame_nth_parts:
  assumes af: "actionFor U name a" and i: "i < length (framesOf U a d m)"
  defines "c \<equiv> framesOf U a d m ! i" and "n \<equiv> length (framesOf U a d m)"
  shows "take 12 c = typeBytesPadded a"
    and "15 \<le> length c"
    and "c ! 12 = of_nat (nonce a)"
    and "c ! 13 = tagByte (i = n - 1) (truthyMeta m \<and> i = 0) (isBinaryData d) (isJsonData d)"
    and "c ! 14 = of_nat (progressByte i n)"
    and "drop 15 c = slice (truthyMeta m) (metaEncodedOf U m) (bufferOf U d) i"
proof -
  have i': "i < chunkTotal (length (bufferOf U d)) (truthyMeta m)"
    using i by (simp add: length_framesOf)
  have c: "c = frameOf (typeBytesPadded a) (nonce a) (truthyMeta m) (isBinaryData d) (isJsonData d)
       (metaEncodedOf U m) (bufferOf U d) n i"
    unfolding c_def n_def length_framesOf by (rule nth_framesOf [OF i'])
  have len: "length (typeBytesPadded a) = 12"
    using actionFor_length [OF af] by (simp add: typeByteLimit_def)
  show "take 12 c = typeBytesPadded a" "15 \<le> length c" "c ! 12 = of_nat (nonce a)"
    "c ! 13 = tagByte (i = n - 1) (truthyMeta m \<and> i = 0) (isBinaryData d) (isJsonData d)"
    "c ! 14 = of_nat (progressByte i n)"
    "drop 15 c = slice (truthyMeta m) (metaEncodedOf U m) (bufferOf U d) i"
    using len by (simp_all add: c frameOf_def nth_append)
qed

text \<open>
  C3 (as amended). Every frame that \<open>send\<close> builds has the type name, zero-padded, in
  bytes 0 to 11, the nonce in byte 12, the tag in byte 13 (bit 0 last fragment, bit 1
  metadata, bit 2 binary, bit 3 JSON, the other bits clear), the scaled progress in
  byte 14 and the payload slice from byte 15 on. The payload of a frame that does not
  carry the metadata is at most 16 KiB minus the 15 bytes of the header; the frame of
  the metadata carries the whole encoded metadata, whatever its length.
\<close>

theorem frame_layout:
  assumes "actionFor U name a" and "validArgs d m"
  shows "\<exists>cs. sendChunks U a d m = Inr cs \<and>
     (\<forall>i<length cs.
        take 12 (cs ! i) =
          encodeBytes U name @ replicate (12 - length (encodeBytes U name)) 0 \<and>
        15 \<le> length (cs ! i) \<and>
        unat (cs ! i ! 12) = nonce a \<and>
        (bit (cs ! i ! 13) 0 \<longleftrightarrow> i = length cs - 1) \<and>
        (bit (cs ! i ! 13) 1 \<longleftrightarrow> truthyMeta m \<and> i = 0) \<and>
        (bit (cs ! i ! 13) 2 \<longleftrightarrow> isBinaryData d) \<and>
        (bit (cs ! i ! 13) 3 \<longleftrightarrow> isJsonData d) \<and>
        cs ! i ! 13 < 16 \<and>
        unat (cs ! i ! 14) = progressByte i (length cs) \<and>
        progressByte i (length cs) \<le> 255 \<and>
        drop 15 (cs ! i) = slice (truthyMeta m) (metaEncodedOf U m) (bufferOf U d) i \<and>
        (\<not> (truthyMeta m \<and> i = 0) \<longrightarrow> length (drop 15 (cs ! i)) \<le> 16 * 2 ^ 10 - 15))"
proof (intro exI conjI allI impI)
  show "sendChunks U a d m = Inr (framesOf U a d m)" using assms by (rule frames_exist)
next
  fix i assume i: "i < length (framesOf U a d m)"
  note p = frame_nth_parts [OF assms(1) i]
  have pb: "progressByte i (length (framesOf U a d m)) \<le> 255"
    using progressByte_le [OF i] by (simp add: oneByteMax_def)
  show "take 12 (framesOf U a d m ! i) =
      encodeBytes U name @ replicate (12 - length (encodeBytes U name)) 0"
    using assms(1) by (simp add: p(1) actionFor_def typeByteLimit_def)
  show "15 \<le> length (framesOf U a d m ! i)" by (rule p(2))
  show "unat (framesOf U a d m ! i ! 12) = nonce a"
    using assms(1) by (simp add: p(3) actionFor_def unat_of_nat)
  show "bit (framesOf U a d m ! i ! 13) 0 \<longleftrightarrow> i = length (framesOf U a d m) - 1"
    by (simp only: p(4) tagByte_bit)
  show "bit (framesOf U a d m ! i ! 13) 1 \<longleftrightarrow> truthyMeta m \<and> i = 0"
    by (simp only: p(4) tagByte_bit)
  show "bit (framesOf U a d m ! i ! 13) 2 \<longleftrightarrow> isBinaryData d"
    by (simp only: p(4) tagByte_bit)
  show "bit (framesOf U a d m ! i ! 13) 3 \<longleftrightarrow> isJsonData d"
    by (simp only: p(4) tagByte_bit)
  show "framesOf U a d m ! i ! 13 < 16" by (simp only: p(4) tagByte_less)
  show "unat (framesOf U a d m ! i ! 14) = progressByte i (length (framesOf U a d m))"
    using pb by (simp add: p(5) unat_of_nat)
  show "progressByte i (length (framesOf U a d m)) \<le> 255" by (rule pb)
  show "drop 15 (framesOf U a d m ! i) = slice (truthyMeta m) (metaEncodedOf U m) (bufferOf U d) i"
    by (rule p(6))
  assume "\<not> (truthyMeta m \<and> i = 0)"
  then show "length (drop 15 (framesOf U a d m ! i)) \<le> 16 * 2 ^ 10 - 15"
    using slice_data_le [of "truthyMeta m" i "metaEncodedOf U m" "bufferOf U d"]
    by (simp only: p(6) layout_values) simp
qed

theorem frame_layout_witness:
  "\<exists>cs. sendChunks textUtils binaryAction (DBuffer [1, 2, 3]) (MetaObject ''{}'') = Inr cs \<and>
     length cs = 2 \<and>
     take 12 (cs ! 1) = [98, 105, 110, 97, 114, 121, 0, 0, 0, 0, 0, 0] \<and>
     unat (cs ! 1 ! 12) = 0 \<and> bit (cs ! 1 ! 13) 0 \<and> \<not> bit (cs ! 1 ! 13) 1 \<and>
     bit (cs ! 1 ! 13) 2 \<and> bit (cs ! 1 ! 13) 3 \<and> drop 15 (cs ! 1) = [1, 2, 3]"
proof -
  have v: "validArgs (DBuffer [1, 2, 3]) (MetaObject ''{}'' :: string jsmeta)"
    by (simp add: validArgs_def truthyMeta_def isBinaryData_def isBigInts_def)
  obtain cs where cs: "sendChunks textUtils binaryAction (DBuffer [1, 2, 3]) (MetaObject ''{}'') = Inr cs"
    and all: "\<forall>i<length cs.
        take 12 (cs ! i) =
          encodeBytes textUtils ''binary'' @ replicate (12 - length (encodeBytes textUtils ''binary'')) 0 \<and>
        15 \<le> length (cs ! i) \<and>
        unat (cs ! i ! 12) = nonce binaryAction \<and>
        (bit (cs ! i ! 13) 0 \<longleftrightarrow> i = length cs - 1) \<and>
        (bit (cs ! i ! 13) 1 \<longleftrightarrow> truthyMeta (MetaObject ''{}'' :: string jsmeta) \<and> i = 0) \<and>
        (bit (cs ! i ! 13) 2 \<longleftrightarrow> isBinaryData (DBuffer [1, 2, 3] :: string jsdata)) \<and>
        (bit (cs ! i ! 13) 3 \<longleftrightarrow> isJsonData (DBuffer [1, 2, 3] :: string jsdata)) \<and>
        cs ! i ! 13 < 16 \<and>
        unat (cs ! i ! 14) = progressByte i (length cs) \<and>
        progressByte i (length cs) \<le> 255 \<and>
        drop 15 (cs ! i) = slice (truthyMeta (MetaObject ''{}'' :: string jsmeta))
           (metaEncodedOf textUtils (MetaObject ''{}'')) (bufferOf textUtils (DBuffer [1, 2, 3])) i \<and>
        (\<not> (truthyMeta (MetaObject ''{}'' :: string jsmeta) \<and> i = 0) \<longrightarrow> length (drop 15 (cs ! i)) \<le> 16 * 2 ^ 10 - 15)"
    using frame_layout [of textUtils "''binary''" binaryAction, OF binaryAction_ok v] by blast
  have "cs = framesOf textUtils binaryAction (DBuffer [1, 2, 3]) (MetaObject ''{}'')"
    using cs by (simp add: frames_exist [OF binaryAction_ok v])
  then have len: "length cs = 2"
    by (simp add: length_framesOf chunkTotal_meta ceilDiv_nat chunkSize_pos bufferOf_def
        layout_values truthyMeta_def)
  show ?thesis
    using all [rule_format, of 1] len cs
    by (simp add: textUtils_def bufferOf_def slice_def subarray_def truthyMeta_def
        isBinaryData_def isJsonData_def binaryAction_def layout_values replicate_numeral)
qed

text \<open>
  The claim C3 as stated fails: for an empty buffer sent with the metadata \<open>bigMeta\<close>,
  \<open>send\<close> builds one frame whose payload has 16378 bytes, more than 16 KiB minus 15.
\<close>

theorem meta_frame_exceeds_limit:
  "sendChunks textUtils binaryAction (DBuffer []) (MetaObject bigMeta) =
     Inr (framesOf textUtils binaryAction (DBuffer []) (MetaObject bigMeta)) \<and>
   length (framesOf textUtils binaryAction (DBuffer []) (MetaObject bigMeta)) = 1 \<and>
   length (drop 15 (framesOf textUtils binaryAction (DBuffer []) (MetaObject bigMeta) ! 0)) = 16378 \<and>
   \<not> length (drop 15 (framesOf textUtils binaryAction (DBuffer []) (MetaObject bigMeta) ! 0))
       \<le> 16 * 2 ^ 10 - 15"
proof -
  have v: "validArgs (DBuffer []) (MetaObject bigMeta)"
    by (simp add: validArgs_def truthyMeta_def isBinaryData_def isBigInts_def)
  have len: "length (framesOf textUtils binaryAction (DBuffer []) (MetaObject bigMeta)) = 1"
    by (simp add: length_framesOf chunkTotal_meta ceilDiv_zero bufferOf_def truthyMeta_def)
  have "drop 15 (framesOf textUtils binaryAction (DBuffer []) (MetaObject bigMeta) ! 0)
      = slice (truthyMeta (MetaObject bigMeta)) (metaEncodedOf textUtils (MetaObject bigMeta))
          (bufferOf textUtils (DBuffer [])) 0"
    by (rule frame_nth_parts(6) [OF binaryAction_ok]) (simp add: len)
  then have pay: "length (drop 15 (framesOf textUtils binaryAction (DBuffer []) (MetaObject bigMeta) ! 0)) = 16378"
    by (simp add: slice_def truthyMeta_def metaEncodedOf_def textUtils_def bigMeta_def)
  show ?thesis
    using frames_exist [OF binaryAction_ok v] len pay by simp
qed

text \<open>
  C2. The number of frames \<open>send\<close> builds is the ceiling of the byte length of the
  payload over the fragment capacity, plus one if there is metadata, and at least one.
  With metadata, frame 0 carries the encoded metadata and is the only frame tagged as
  carrying metadata; without, no frame is tagged so.
\<close>

theorem frame_count:
  assumes "actionFor U name a" and "validArgs d m"
  shows "\<exists>cs. sendChunks U a d m = Inr cs \<and>
     length cs = max 1 (nat \<lceil>(of_nat (length (bufferOf U d)) :: rat) / of_nat (16 * 2 ^ 10 - 15)\<rceil>
                        + (if truthyMeta m then 1 else 0)) \<and>
     (\<forall>i<length cs. bit (tagOf (cs ! i)) 1 \<longleftrightarrow> truthyMeta m \<and> i = 0) \<and>
     (truthyMeta m \<longrightarrow> payloadOf (cs ! 0) = metaEncodedOf U m)"
proof (intro exI conjI allI impI)
  let ?cs = "framesOf U a d m"
  show "sendChunks U a d m = Inr ?cs" using assms by (rule frames_exist)
  have csv: "chunkSize = 16 * 2 ^ 10 - 15" by (simp add: layout_values)
  have "length ?cs = max 1 (ceilDiv (length (bufferOf U d)) chunkSize
                        + (if truthyMeta m then 1 else 0))"
    by (simp add: length_framesOf chunkTotal_def Let_def max_def)
  then show "length ?cs = max 1 (nat \<lceil>(of_nat (length (bufferOf U d)) :: rat) / of_nat (16 * 2 ^ 10 - 15)\<rceil>
                        + (if truthyMeta m then 1 else 0))"
    by (simp only: ceilDiv_def csv)
  have pos: "0 < length ?cs" by (simp add: length_framesOf chunkTotal_pos)
  {
    fix i assume i: "i < length ?cs"
    note p = frame_nth_parts [OF assms(1) i]
    have "tagOf (?cs ! i) = ?cs ! i ! 13" using p(2) by (simp add: tagOf_def byteAt_def layout_values)
    then show "bit (tagOf (?cs ! i)) 1 \<longleftrightarrow> truthyMeta m \<and> i = 0"
      by (simp only: p(4) tagByte_bit)
  }
  assume "truthyMeta m"
  then show "payloadOf (?cs ! 0) = metaEncodedOf U m"
    using frame_nth_parts(6) [OF assms(1) pos] 
    by (simp add: payloadOf_def subarray_def layout_values slice_def)
qed

theorem frame_count_witness:
  "\<exists>cs. sendChunks textUtils binaryAction (DBuffer [1, 2, 3]) (MetaObject ''{}'') = Inr cs \<and>
     length cs = 2 \<and> bit (tagOf (cs ! 0)) 1 \<and> \<not> bit (tagOf (cs ! 1)) 1 \<and>
     payloadOf (cs ! 0) = [123, 125]"
proof -
  have v: "validArgs (DBuffer [1, 2, 3]) (MetaObject ''{}'' :: string jsmeta)"
    by (simp add: validArgs_def truthyMeta_def isBinaryData_def isBigInts_def)
  have c: "nat \<lceil>(3 :: rat) / 16369\<rceil> = 1"
    using ceilDiv_nat [of 16369 3] by (simp add: ceilDiv_def)
  show ?thesis
    using frame_count [of textUtils "''binary''" binaryAction, OF binaryAction_ok v]
    by (auto simp add: c bufferOf_def truthyMeta_def metaEncodedOf_def textUtils_def)
qed

section \<open>Rooms in which nothing has been added to \<open>Object.prototype\<close>\<close>

lemma inherits_emptyRoom: "inherits emptyRoom k \<longleftrightarrow> k \<in> set objectPrototypeKeys"
  by (simp add: inherits_def emptyRoom_def split: option.splits)

lemma inherits_same: "inherited st' = inherited st \<Longrightarrow> inherits st' = inherits st"
  by (rule ext) (simp add: inherits_def split: option.splits)

lemma inherits_builtin: "k \<in> set objectPrototypeKeys \<Longrightarrow> inherits st k"
  by (simp add: inherits_def)

lemma and_oneByteMax: "(n :: nat) AND oneByteMax = n mod 256"
proof -
  have "n AND oneByteMax = n AND mask 8" by (simp add: oneByteMax_def mask_eq_exp_minus_1)
  also have "\<dots> = take_bit 8 n" by (simp only: take_bit_eq_mask)
  also have "\<dots> = n mod 256" by (simp add: take_bit_eq_mod)
  finally show ?thesis .
qed

lemma emptyRoom_absent:
  "k \<notin> set objectPrototypeKeys \<Longrightarrow> getProp (inherits emptyRoom) (actions emptyRoom) k = Absent"
  by (simp add: getProp_def inherits_emptyRoom) (simp add: emptyRoom_def)

lemma binary_not_inherited: "''binary'' \<notin> set objectPrototypeKeys"
  by (simp add: objectPrototypeKeys_def)

lemma textUtils_length: "length (encodeBytes textUtils s) = length s"
  by (simp add: textUtils_def)

lemma binaryRoom_made:
  "makeAction textUtils emptyRoom (Some ''binary'') =
     Inr ((SendFn 0, SetOnCompleteFn 0, SetOnProgressFn 0), binaryRoom)"
proof -
  have "length (encodeBytes textUtils ''binary'') \<le> typeByteLimit"
    by (simp add: textUtils_length typeByteLimit_def)
  from makeAction_new [OF emptyRoom_absent [OF binary_not_inherited] _ this]
  show ?thesis by (simp add: binaryRoom_def handlesOf_def emptyRoom_def)
qed

section \<open>The internal actions\<close>

lemma makeActions_created:
  assumes "makeActions U st ns = Inr (hs, st')" and "distinct ns"
    and "\<forall>n\<in>set ns. getProp (inherits st) (actions st) n = Absent"
  shows "length hs = length ns \<and>
         (\<forall>i<length ns. \<exists>a. actions st' (ns ! i) = Some a \<and> actionFor U (ns ! i) a \<and>
                             nonce a = 0 \<and> hs ! i = handlesOf a) \<and>
         (\<forall>k. k \<notin> set ns \<longrightarrow> actions st' k = actions st k)"
  using assms
proof (induction ns arbitrary: st hs)
  case Nil
  then show ?case by simp
next
  case (Cons n ns)
  from Cons.prems(1) obtain h st1 hs1 where
    mk: "makeAction U st (Some n) = Inr (h, st1)" and
    rest: "makeActions U st1 ns = Inr (hs1, st')" and hs: "hs = h # hs1"
    by (auto simp: bindE_def split: sum.splits)
  have fresh: "getProp (inherits st) (actions st) n = Absent" using Cons.prems(3) by simp
  obtain a where a: "actions st1 n = Some a" "actionFor U n a" "nonce a = 0" "h = handlesOf a"
    and other: "\<forall>k. k \<noteq> n \<longrightarrow> actions st1 k = actions st k"
    using makeAction_created [OF mk fresh] by blast
  have fresh1: "\<forall>k\<in>set ns. getProp (inherits st1) (actions st1) k = Absent"
  proof
    fix k assume k: "k \<in> set ns"
    then have "k \<noteq> n" using Cons.prems(2) by auto
    then have "actions st1 k = actions st k" using other by simp
    moreover have "getProp (inherits st) (actions st) k = Absent" using Cons.prems(3) k by simp
    moreover have "inherits st1 = inherits st"
      using mk by (intro inherits_same) (auto simp: makeAction_def bindE_def u8set_def Let_def
          split: lookup.splits option.splits if_splits)
    ultimately show "getProp (inherits st1) (actions st1) k = Absent" by (simp add: getProp_def)
  qed
  have d: "distinct ns" using Cons.prems(2) by simp
  note IH = Cons.IH [OF rest d fresh1]
  have n_notin: "n \<notin> set ns" using Cons.prems(2) by simp
  have keep: "actions st' n = Some a" using IH n_notin a(1) by simp
  show ?case
  proof (intro conjI allI impI)
    show "length hs = length (n # ns)" using IH hs by simp
    show "\<exists>a. actions st' ((n # ns) ! i) = Some a \<and> actionFor U ((n # ns) ! i) a \<and>
              nonce a = 0 \<and> hs ! i = handlesOf a" if "i < length (n # ns)" for i
    proof (cases i)
      case 0
      then show ?thesis using keep a hs by simp
    next
      case (Suc i')
      then show ?thesis using IH that hs by simp
    qed
    show "actions st' k = actions st k" if "k \<notin> set (n # ns)" for k
      using that IH other by simp
  qed
qed

lemma setOnComplete_keeps:
  assumes "actions st n = Some a"
  shows "\<exists>a'. actions (setOnComplete st k f) n = Some a' \<and> handlesOf a' = handlesOf a \<and>
           typeBytesPadded a' = typeBytesPadded a \<and> nonce a' = nonce a \<and>
           onProgress a' = onProgress a"
  using assms by (cases "actions st k") (auto simp: setOnComplete_def handlesOf_def)

lemma setOnComplete_none:
  "actions st n = None \<Longrightarrow> actions (setOnComplete st k f) n = None"
  by (cases "actions st k") (auto simp: setOnComplete_def)

lemma foldl_setOnComplete_keeps:
  assumes "actions st n = Some a"
  shows "\<exists>a'. actions (foldl (\<lambda>s nf. setOnComplete s (fst nf) (snd nf)) st nfs) n = Some a' \<and>
           handlesOf a' = handlesOf a \<and> typeBytesPadded a' = typeBytesPadded a \<and>
           nonce a' = nonce a"
  using assms
proof (induction nfs arbitrary: st a)
  case Nil
  then show ?case by simp
next
  case (Cons nf nfs)
  obtain a1 where a1: "actions (setOnComplete st (fst nf) (snd nf)) n = Some a1"
    "handlesOf a1 = handlesOf a" "typeBytesPadded a1 = typeBytesPadded a" "nonce a1 = nonce a"
    using setOnComplete_keeps [OF Cons.prems] by blast
  show ?case using Cons.IH [OF a1(1)] a1(2-4) by simp
qed

lemma foldl_setOnComplete_none:
  "actions st n = None \<Longrightarrow>
   actions (foldl (\<lambda>s nf. setOnComplete s (fst nf) (snd nf)) st nfs) n = None"
  by (induction nfs arbitrary: st) (simp_all add: setOnComplete_none)

lemma internalTypes_fresh:
  "distinct internalTypes" "\<forall>n\<in>set internalTypes. getProp (inherits emptyRoom) (actions emptyRoom) n = Absent"
  by (simp_all add: internalTypes_def getProp_def inherits_emptyRoom objectPrototypeKeys_def)
    (simp add: emptyRoom_def)

lemma newRoom_actions:
  assumes "newRoom U = Inr (hs, st)"
  shows "length hs = length internalTypes"
    and "i < length internalTypes \<Longrightarrow>
         \<exists>a. actions st (internalTypes ! i) = Some a \<and> actionFor U (internalTypes ! i) a \<and>
             nonce a = 0 \<and> hs ! i = handlesOf a"
    and "k \<notin> set internalTypes \<Longrightarrow> actions st k = None"
proof -
  from assms obtain st1 where
    mk: "makeActions U emptyRoom internalTypes = Inr (hs, st1)" and
    st: "st = foldl (\<lambda>s nf. setOnComplete s (fst nf) (snd nf)) st1 (zip internalTypes internalHandlers)"
    by (auto simp: newRoom_def bindE_def split: sum.splits)
  note c = makeActions_created [OF mk internalTypes_fresh]
  show "length hs = length internalTypes" using c by simp
  show "\<exists>a. actions st (internalTypes ! i) = Some a \<and> actionFor U (internalTypes ! i) a \<and>
             nonce a = 0 \<and> hs ! i = handlesOf a" if i: "i < length internalTypes"
  proof -
    obtain a where a: "actions st1 (internalTypes ! i) = Some a" "actionFor U (internalTypes ! i) a"
      "nonce a = 0" "hs ! i = handlesOf a" using c i by blast
    obtain a' where "actions st (internalTypes ! i) = Some a'" "handlesOf a' = handlesOf a"
      "typeBytesPadded a' = typeBytesPadded a" "nonce a' = nonce a"
      unfolding st using foldl_setOnComplete_keeps [OF a(1)] by blast
    then show ?thesis using a by (auto simp: actionFor_def)
  qed
  show "actions st k = None" if "k \<notin> set internalTypes"
  proof -
    have "actions st1 k = None" using c that by (simp add: emptyRoom_def)
    then show ?thesis unfolding st by (rule foldl_setOnComplete_none)
  qed
qed

lemma internalTypes_length: "length internalTypes = 6"
  by (simp add: internalTypes_def)

lemma makeActions_succeeds:
  assumes "distinct ns" and "\<forall>n\<in>set ns. getProp (inherits st) (actions st) n = Absent"
    and "\<forall>n\<in>set ns. n \<noteq> [] \<and> length (encodeBytes U n) \<le> typeByteLimit"
  shows "\<exists>hs st'. makeActions U st ns = Inr (hs, st') \<and>
           (ns \<noteq> [] \<longrightarrow> hs ! 0 = (SendFn (nextClosure st), SetOnCompleteFn (nextClosure st),
                                   SetOnProgressFn (nextClosure st)))"
  using assms
proof (induction ns arbitrary: st)
  case Nil
  then show ?case by simp
next
  case (Cons n ns)
  have fresh: "getProp (inherits st) (actions st) n = Absent" and ne: "n \<noteq> []"
    and le: "length (encodeBytes U n) \<le> typeByteLimit"
    using Cons.prems by simp_all
  note mk = makeAction_new [OF fresh ne le]
  define a where "a = \<lparr>onComplete = noOp, onProgress = noOp, closureId = nextClosure st,
           typeBytesPadded = encodeBytes U n @ replicate (typeByteLimit - length (encodeBytes U n)) 0,
           nonce = 0\<rparr>"
  define st1 where "st1 = st\<lparr>actions := (actions st)(n \<mapsto> a), nextClosure := Suc (nextClosure st)\<rparr>"
  have mk': "makeAction U st (Some n) = Inr (handlesOf a, st1)"
    using mk by (simp add: a_def st1_def)
  have fresh1: "\<forall>k\<in>set ns. getProp (inherits st1) (actions st1) k = Absent"
  proof
    fix k assume k: "k \<in> set ns"
    then have "k \<noteq> n" using Cons.prems(1) by auto
    moreover have "getProp (inherits st) (actions st) k = Absent" using Cons.prems(2) k by simp
    moreover have "inherits st1 = inherits st" by (intro inherits_same) (simp add: st1_def)
    ultimately show "getProp (inherits st1) (actions st1) k = Absent" by (simp add: getProp_def st1_def)
  qed
  have "\<exists>hs st'. makeActions U st1 ns = Inr (hs, st') \<and>
           (ns \<noteq> [] \<longrightarrow> hs ! 0 = (SendFn (nextClosure st1), SetOnCompleteFn (nextClosure st1),
                                   SetOnProgressFn (nextClosure st1)))"
    using Cons.prems by (intro Cons.IH fresh1) simp_all
  then obtain hs st' where "makeActions U st1 ns = Inr (hs, st')" by blast
  then show ?case by (simp add: mk' bindE_def handlesOf_def a_def)
qed

lemma internalTypes_fit:
  "\<forall>n\<in>set internalTypes. n \<noteq> [] \<and> length (encodeBytes textUtils n) \<le> typeByteLimit"
  by (simp add: internalTypes_def textUtils_length typeByteLimit_def)

lemma mainRoom_made: "newRoom textUtils = Inr (internalHandles, mainRoom)"
proof -
  obtain hs st1 where "makeActions textUtils emptyRoom internalTypes = Inr (hs, st1)"
    using makeActions_succeeds [OF internalTypes_fresh internalTypes_fit] by blast
  then show ?thesis
    by (simp add: newRoom_def bindE_def internalHandles_def mainRoom_def)
qed

lemma internalHandles_first:
  "internalHandles ! 0 = (SendFn 0, SetOnCompleteFn 0, SetOnProgressFn 0)"
proof -
  obtain hs st1 where mk: "makeActions textUtils emptyRoom internalTypes = Inr (hs, st1)"
    and h: "hs ! 0 = (SendFn (nextClosure (emptyRoom :: string room)),
                      SetOnCompleteFn (nextClosure (emptyRoom :: string room)),
                      SetOnProgressFn (nextClosure (emptyRoom :: string room)))"
    using makeActions_succeeds [OF internalTypes_fresh internalTypes_fit]
    by (auto simp: internalTypes_def)
  have "internalHandles = hs"
    using mk by (simp add: newRoom_def bindE_def internalHandles_def)
  then show ?thesis using h by (simp add: emptyRoom_def)
qed

text \<open>
  The claim C9 as stated fails: a caller who passes the identifier of the internal ping
  action to \<open>makeAction\<close> gets the three functions the room itself obtained for it.
\<close>

theorem reserved_name_returns_internal_handles:
  "newRoom textUtils = Inr (internalHandles, mainRoom) \<and>
   internalHandles ! 0 = (SendFn 0, SetOnCompleteFn 0, SetOnProgressFn 0) \<and>
   makeAction textUtils mainRoom (Some ''__91n6__'') =
     Inr ((SendFn 0, SetOnCompleteFn 0, SetOnProgressFn 0), mainRoom)"
proof -
  obtain a where a: "actions mainRoom (internalTypes ! 0) = Some a"
    "internalHandles ! 0 = handlesOf a"
    using newRoom_actions(2) [OF mainRoom_made, of 0] by (auto simp: internalTypes_length)
  have "internalTypes ! 0 = ''__91n6__''" by (simp add: internalTypes_def)
  then have "makeAction textUtils mainRoom (Some ''__91n6__'') = Inr (handlesOf a, mainRoom)"
    using a(1) by (simp add: makeAction_memo)
  then show ?thesis using a(2) mainRoom_made internalHandles_first by simp
qed

text \<open>
  C9 (as amended). The six internal actions are registered in the room's one action
  table under identifiers that fit the 12-byte budget, and \<open>makeAction\<close> called with
  one of these identifiers returns the functions of the internal action (the ones the
  room obtained when it created the action) and leaves the room as it is.
\<close>

theorem internal_actions_shared:
  assumes "newRoom U = Inr (hs, st)" and "i < 6"
  shows "length (encodeBytes U (internalTypes ! i)) \<le> 12 \<and>
         makeAction U st (Some (internalTypes ! i)) = Inr (hs ! i, st) \<and>
         (\<exists>c. hs ! i = (SendFn c, SetOnCompleteFn c, SetOnProgressFn c))"
proof -
  obtain a where a: "actions st (internalTypes ! i) = Some a"
    "actionFor U (internalTypes ! i) a" "hs ! i = handlesOf a"
    using newRoom_actions(2) [OF assms(1), of i] assms(2) by (auto simp: internalTypes_length)
  have "length (encodeBytes U (internalTypes ! i)) \<le> 12"
    using a(2) by (simp add: actionFor_def typeByteLimit_def)
  moreover have "makeAction U st (Some (internalTypes ! i)) = Inr (hs ! i, st)"
    using a(1,3) by (simp add: makeAction_memo)
  moreover have "\<exists>c. hs ! i = (SendFn c, SetOnCompleteFn c, SetOnProgressFn c)"
    using a(3) by (simp add: handlesOf_def)
  ultimately show ?thesis by blast
qed

theorem internal_actions_shared_witness:
  "length (encodeBytes textUtils (internalTypes ! 5)) \<le> 12 \<and>
   makeAction textUtils mainRoom (Some (internalTypes ! 5)) = Inr (internalHandles ! 5, mainRoom) \<and>
   (\<exists>c. internalHandles ! 5 = (SendFn c, SetOnCompleteFn c, SetOnProgressFn c))"
  using internal_actions_shared [OF mainRoom_made, of 5] by simp

section \<open>Names that makeAction does not check\<close>

lemma makeAction_inherited:
  "actions st k = None \<Longrightarrow> k \<in> set objectPrototypeKeys \<Longrightarrow>
   makeAction U st (Some k) = Inr ((FnUndefined, FnUndefined, FnUndefined), st)"
  by (simp add: makeAction_def propertyKey_def getProp_def inherits_builtin)

lemma makeAction_undefined_key:
  "actions st ''undefined'' = Some a \<Longrightarrow> makeAction U st None = Inr (handlesOf a, st)"
  by (simp add: makeAction_def propertyKey_def getProp_def)

text \<open>
  C5 (the code departs from the claim). In the room as the exported function returns it,
  \<open>makeAction\<close> called with the name \<open>hasOwnProperty\<close>, whose encoding has 14 bytes,
  does not throw: the read \<open>actions[type]\<close> finds the function inherited from
  \<open>Object.prototype\<close>, and the call returns three times \<open>undefined\<close>.
\<close>

theorem makeAction_hasOwnProperty:
  "length (encodeBytes textUtils ''hasOwnProperty'') = 14 \<and>
   makeAction textUtils mainRoom (Some ''hasOwnProperty'') =
     Inr ((FnUndefined, FnUndefined, FnUndefined), mainRoom)"
proof -
  have "''hasOwnProperty'' \<notin> set internalTypes" by (simp add: internalTypes_def)
  then have "actions mainRoom ''hasOwnProperty'' = None"
    by (rule newRoom_actions(3) [OF mainRoom_made])
  moreover have "''hasOwnProperty'' \<in> set objectPrototypeKeys"
    by (simp add: objectPrototypeKeys_def)
  ultimately show ?thesis by (simp add: makeAction_inherited textUtils_length)
qed

section \<open>The rooms of the examples\<close>

lemma binaryRoom_eq:
  "binaryRoom = emptyRoom\<lparr>actions := [''binary'' \<mapsto> binaryAction], nextClosure := 1\<rparr>"
proof -
  have "length (encodeBytes textUtils ''binary'') \<le> typeByteLimit"
    by (simp add: textUtils_length typeByteLimit_def)
  from makeAction_new [OF emptyRoom_absent [OF binary_not_inherited] _ this]
  show ?thesis
    by (simp add: binaryRoom_def emptyRoom_def binaryAction_def textUtils_def typeByteLimit_def
        replicate_numeral)
qed

lemma binaryRoom_simps:
  "actions binaryRoom ''binary'' = Some binaryAction"
  "calls binaryRoom = []"
  "perType binaryRoom pid t k = None"
  "peerMap binaryRoom = []"
  "pendingTransmissions binaryRoom = Map.empty"
  "inherited binaryRoom = (\<lambda>k. Map.empty)"
  "blobReads binaryRoom = []"
  "sent binaryRoom = []"
  by (simp_all add: binaryRoom_eq emptyRoom_def perType_def perPeer_def)

lemma binaryRoom_pending: "pendingAt binaryRoom pid t k = None"
  by (simp add: pendingAt_def slotTable_def slots_def tableOf_def binaryRoom_simps
      split: table.splits)

lemma inherits_binaryRoom: "inherits binaryRoom k \<longleftrightarrow> k \<in> set objectPrototypeKeys"
  by (simp add: inherits_def binaryRoom_simps split: option.splits)

lemma binaryRoom_plain: "k \<notin> set objectPrototypeKeys \<Longrightarrow> plainPeer binaryRoom k"
  by (simp add: plainPeer_def inherits_binaryRoom)

lemma peer_not_inherited: "''peer'' \<notin> set objectPrototypeKeys"
  by (simp add: objectPrototypeKeys_def)

lemma char_of_byte: "char_of (unat (of_nat (of_char c) :: byte)) = c"
proof -
  have "(of_char c :: nat) < 256" by simp
  then have "unat (of_nat (of_char c) :: byte) = of_char c" by (simp add: unat_of_nat)
  then show ?thesis by simp
qed

lemma textUtils_decode_encode: "decodeBytes textUtils (encodeBytes textUtils s) = s"
  by (induction s) (simp_all add: textUtils_def char_of_byte)

lemma textUtils_decode_append:
  "decodeBytes textUtils (xs @ ys) = decodeBytes textUtils xs @ decodeBytes textUtils ys"
  by (simp add: textUtils_def)

lemma textUtils_decode_zeros:
  "filter (\<lambda>c. c \<noteq> CHR 0x00) (decodeBytes textUtils (replicate n 0)) = []"
  by (induction n) (simp_all add: textUtils_def char_of_eq_iff)

lemma textUtils_type_survives:
  assumes "actionFor textUtils name a" and "CHR 0x00 \<notin> set name"
  shows "decodeType textUtils (typeBytesPadded a) = name"
proof -
  have len: "length (typeBytesPadded a) = 12"
    using actionFor_length [OF assms(1)] by (simp add: typeByteLimit_def)
  have "subarray (typeBytesPadded a) typeIndex nonceIndex = typeBytesPadded a"
    using len by (simp add: subarray_def layout_defs)
  moreover have "filter (\<lambda>c. c \<noteq> CHR 0x00) name = name"
    using assms(2) by (induction name) auto
  ultimately show ?thesis
    using assms(1)
    by (simp add: decodeType_def actionFor_def textUtils_decode_append textUtils_decode_encode
        textUtils_decode_zeros)
qed

lemma binary_type_survives: "decodeType textUtils (typeBytesPadded binaryAction) = ''binary''"
  by (rule textUtils_type_survives [OF binaryAction_ok]) simp

section \<open>Calls of send\<close>

lemma checkArgs_rejects:
  "m = MetaOther \<Longrightarrow> checkArgs d m = Some MetaNotObject"
  "m \<noteq> MetaOther \<Longrightarrow> d = DUndefined \<Longrightarrow> checkArgs d m = Some DataUndefined"
  "m \<noteq> MetaOther \<Longrightarrow> d \<noteq> DUndefined \<Longrightarrow> truthyMeta m \<Longrightarrow> \<not> isBinaryData d \<Longrightarrow>
     checkArgs d m = Some MetaNeedsBinary"
  by (simp_all add: checkArgs_def)

lemma validArgs_checks: "validArgs d m \<Longrightarrow> checkArgs d m = None"
  by (auto simp: validArgs_def checkArgs_def)

lemma validArgs_builds: "validArgs d m \<Longrightarrow> buildChunks U a d m = sendChunks U a d m"
  by (simp add: sendChunks_def validArgs_checks)

lemma send_rejected:
  assumes "actions st name = Some a" and "checkArgs d m = Some e"
  shows "send U online st name d tg m onProg = (Returns (Rejected e), st)"
  using assms by (simp add: send_def async_def)

section \<open>Usage errors\<close>

lemma ping_rejects:
  "ping U online st None = (Returns (Rejected PingNeedsTarget), st)"
  "ping U online st (Some []) = (Returns (Rejected PingNeedsTarget), st)"
  by (simp_all add: ping_def async_def)

text \<open>
  The claim C6 as stated fails: \<open>send\<close> and \<open>ping\<close> are \<open>async\<close>, so the call does
  not throw; it returns a promise, and the promise is rejected with the usage error.
\<close>

theorem send_undefined_returns_rejected_promise:
  "send textUtils (\<lambda>p n. True) binaryRoom ''binary'' DUndefined NoTargets MetaFalsy None =
     (Returns (Rejected DataUndefined), binaryRoom) \<and>
   fst (send textUtils (\<lambda>p n. True) binaryRoom ''binary'' DUndefined NoTargets MetaFalsy None)
     \<noteq> Throws DataUndefined \<and>
   ping textUtils (\<lambda>p n. True) mainRoom None = (Returns (Rejected PingNeedsTarget), mainRoom)"
proof -
  have "checkArgs DUndefined (MetaFalsy :: string jsmeta) = Some DataUndefined"
    by (simp add: checkArgs_def)
  then show ?thesis
    by (simp add: send_rejected [OF binaryRoom_simps(1)] ping_rejects)
qed

text \<open>
  C6 (as amended). \<open>send\<close> returns a rejected promise, builds no frame and leaves the
  room (the nonce included) as it was when the metadata is truthy and not an object,
  when the data is \<open>undefined\<close>, or when the metadata is truthy and the data is not
  binary, the checks being made in this order; \<open>ping\<close> returns a rejected promise when
  it is called without a target id or with the empty string.
\<close>

theorem usage_errors_reject:
  assumes "actions st name = Some a"
  shows "(m = MetaOther \<longrightarrow>
            send U online st name d tg m onProg = (Returns (Rejected MetaNotObject), st)) \<and>
         (m \<noteq> MetaOther \<and> d = DUndefined \<longrightarrow>
            send U online st name d tg m onProg = (Returns (Rejected DataUndefined), st)) \<and>
         (m \<noteq> MetaOther \<and> d \<noteq> DUndefined \<and> truthyMeta m \<and> \<not> isBinaryData d \<longrightarrow>
            send U online st name d tg m onProg = (Returns (Rejected MetaNeedsBinary), st)) \<and>
         ping U online st None = (Returns (Rejected PingNeedsTarget), st) \<and>
         ping U online st (Some []) = (Returns (Rejected PingNeedsTarget), st)"
  using checkArgs_rejects [where m = m and d = d]
  by (auto simp add: send_rejected [OF assms] ping_rejects)

theorem usage_errors_reject_witness:
  "send textUtils (\<lambda>p n. True) binaryRoom ''binary'' (DBuffer [1]) NoTargets MetaOther None =
     (Returns (Rejected MetaNotObject), binaryRoom) \<and>
   send textUtils (\<lambda>p n. True) binaryRoom ''binary'' DUndefined NoTargets MetaFalsy None =
     (Returns (Rejected DataUndefined), binaryRoom) \<and>
   send textUtils (\<lambda>p n. True) binaryRoom ''binary'' (DString ''hi'') NoTargets (MetaObject ''{}'') None =
     (Returns (Rejected MetaNeedsBinary), binaryRoom) \<and>
   ping textUtils (\<lambda>p n. True) binaryRoom None = (Returns (Rejected PingNeedsTarget), binaryRoom)"
  using usage_errors_reject [OF binaryRoom_simps(1), where m = MetaOther and U = textUtils
      and online = "\<lambda>p n. True" and d = "DBuffer [1]" and tg = NoTargets and onProg = None]
    usage_errors_reject [OF binaryRoom_simps(1), where m = MetaFalsy and U = textUtils
      and online = "\<lambda>p n. True" and d = DUndefined and tg = NoTargets and onProg = None]
    usage_errors_reject [OF binaryRoom_simps(1), where m = "MetaObject ''{}''" and U = textUtils
      and online = "\<lambda>p n. True" and d = "DString ''hi''" and tg = NoTargets and onProg = None]
  by (simp add: truthyMeta_def isBinaryData_def)

section \<open>The tables of pending transmissions\<close>

lemma inherits_grow:
  assumes "inherits st k"
    and "\<And>n. inherited st protoKey n \<noteq> None \<Longrightarrow> inherited st' protoKey n \<noteq> None"
  shows "inherits st' k"
  using assms by (auto simp: inherits_def split: option.splits)

lemma inherits_pending [simp]:
  "inherits (st\<lparr>pendingTransmissions := p\<rparr>) = inherits st"
  "inherits (st\<lparr>calls := c\<rparr>) = inherits st"
  by (rule inherits_same; simp)+

lemma inherits_updI:
  "inherits st t \<Longrightarrow>
   inherits (st\<lparr>pendingTransmissions := p,
                inherited := (inherited st)(x := (inherited st x)(k \<mapsto> T))\<rparr>) t"
  "inherits st t \<Longrightarrow>
   inherits (st\<lparr>inherited := (inherited st)(x := (inherited st x)(k \<mapsto> T))\<rparr>) t"
  by (erule inherits_grow; simp)+

lemmas table_defs = storeTarget_def deleteTarget_def ensureTables_def setSlots_def tableOf_def
  slotTable_def slots_def perPeer_def perType_def pendingAt_def Let_def

lemma storeTarget_frame:
  "actions (storeTarget st pid t k T) = actions st"
  "calls (storeTarget st pid t k T) = calls st"
  "peerMap (storeTarget st pid t k T) = peerMap st"
  "sent (storeTarget st pid t k T) = sent st"
  by (simp_all add: storeTarget_def ensureTables_def setSlots_def Let_def split: table.splits)

lemma storeTarget_plain: "plainPeer (storeTarget st pid t k T) pid"
  by (simp add: storeTarget_def ensureTables_def setSlots_def plainPeer_def Let_def
      split: table.splits)

lemma storeTarget_table: "tableOf (storeTarget st pid t k T) pid t = tableOf st pid t"
  by (auto simp: table_defs inherits_updI split: table.splits if_splits option.splits)





lemma deleteTarget_frame:
  "actions (deleteTarget st pid t k) = actions st"
  "calls (deleteTarget st pid t k) = calls st"
  "peerMap (deleteTarget st pid t k) = peerMap st"
  by (simp_all add: deleteTarget_def setSlots_def Let_def split: table.splits)


lemma calls_update_simps:
  "pendingAt (st\<lparr>calls := c\<rparr>) = pendingAt st"
  "targetAt (st\<lparr>calls := c\<rparr>) = targetAt st"
  "tableOf (st\<lparr>calls := c\<rparr>) = tableOf st"
  "plainPeer (st\<lparr>calls := c\<rparr>) = plainPeer st"
  "deleteTarget (st\<lparr>calls := c\<rparr>) pid t k = (deleteTarget st pid t k)\<lparr>calls := c\<rparr>"
  by (simp_all add: table_defs targetAt_def plainPeer_def fun_eq_iff split: table.splits)

section \<open>Receiving\<close>

lemma tag_bit0: "bit (t :: byte) 0 \<longleftrightarrow> t AND 1 \<noteq> 0"
  using tag_bit_iff [of t 0] by simp

lemma handleData_absent:
  "getProp (inherits st) (actions st) (decodeType U buffer) = Absent \<Longrightarrow>
   handleData U st pid buffer = Some (Some (UnregisteredType (decodeType U buffer)), st)"
  by (simp add: handleData_def Let_def)

lemma handleData_beyond:
  "getProp (inherits st) (actions st) (decodeType U buffer) \<noteq> Absent \<Longrightarrow> \<not> plainPeer st pid \<Longrightarrow>
   handleData U st pid buffer = None"
  by (simp add: handleData_def Let_def split: lookup.splits)

lemma handleData_inherited:
  assumes "getProp (inherits st) (actions st) (decodeType U buffer) = Inherited"
    and "plainPeer st pid"
  shows "handleData U st pid buffer =
     (if isMetaFrame buffer
      then (case fromJson U (decodeBytes U (payloadOf buffer)) of
              None \<Rightarrow> Some (Some SyntaxError,
                       storeTarget st pid (decodeType U buffer) (byteAt buffer nonceIndex)
                         (targetAt st pid (decodeType U buffer) (byteAt buffer nonceIndex)))
            | Some v \<Rightarrow> Some (Some NotAFunction,
                       storeTarget st pid (decodeType U buffer) (byteAt buffer nonceIndex)
                         ((targetAt st pid (decodeType U buffer) (byteAt buffer nonceIndex))
                            \<lparr>meta := Some v\<rparr>)))
      else Some (Some NotAFunction,
             storeTarget st pid (decodeType U buffer) (byteAt buffer nonceIndex)
               ((targetAt st pid (decodeType U buffer) (byteAt buffer nonceIndex))
                  \<lparr>chunks := chunks (targetAt st pid (decodeType U buffer) (byteAt buffer nonceIndex))
                               @ [payloadOf buffer]\<rparr>)))"
  using assms
  by (simp add: handleData_def Let_def tag_bit_iff isMetaFrame_def split: option.splits)

lemma handleData_own:
  assumes "actions st (decodeType U buffer) = Some a" and "plainPeer st pid"
  shows "handleData U st pid buffer =
    (if isMetaFrame buffer
     then (case fromJson U (decodeBytes U (payloadOf buffer)) of
             None \<Rightarrow> Some (Some SyntaxError,
                       storeTarget st pid (decodeType U buffer) (byteAt buffer nonceIndex)
                         (targetAt st pid (decodeType U buffer) (byteAt buffer nonceIndex)))
           | Some v \<Rightarrow>
               Some (deliver U st pid a (decodeType U buffer) (byteAt buffer nonceIndex)
                 (isLastFrame buffer) (isBinaryFrame buffer) (isJsonFrame buffer)
                 (progressOf buffer)
                 ((targetAt st pid (decodeType U buffer) (byteAt buffer nonceIndex))\<lparr>meta := Some v\<rparr>)))
     else Some (deliver U st pid a (decodeType U buffer) (byteAt buffer nonceIndex)
            (isLastFrame buffer) (isBinaryFrame buffer) (isJsonFrame buffer)
            (progressOf buffer)
            ((targetAt st pid (decodeType U buffer) (byteAt buffer nonceIndex))
               \<lparr>chunks := chunks (targetAt st pid (decodeType U buffer) (byteAt buffer nonceIndex))
                            @ [payloadOf buffer]\<rparr>)))"
  using assms
  by (simp add: handleData_def getProp_def deliver_def Let_def tag_bit_iff tag_bit0
      isLastFrame_def isMetaFrame_def isBinaryFrame_def isJsonFrame_def
      split: option.splits)


lemma deliver_not_last:
  "deliver U st pid a t k False ib ij p T1 =
     (None, (storeTarget st pid t k T1)
              \<lparr>calls := calls st @ [ActionProgress (onProgress a) p pid (meta T1)]\<rparr>)"
  by (simp add: deliver_def)

lemma deliver_last_calls:
  "calls (snd (deliver U st pid a t k True ib ij p T1)) =
     calls st @ ActionProgress (onProgress a) p pid (meta T1) #
       (if ib then [ActionComplete (onComplete a) (Bytes (concat (chunks T1))) pid (meta T1)]
        else if ij
          then (case fromJson U (decodeBytes U (concat (chunks T1))) of
                  None \<Rightarrow> []
                | Some v \<Rightarrow> [ActionComplete (onComplete a) (Json v) pid None])
          else [ActionComplete (onComplete a) (Text (decodeBytes U (concat (chunks T1)))) pid None])"
  by (simp add: deliver_def Let_def storeTarget_frame deleteTarget_frame calls_update_simps
      split: option.splits)

lemma deliver_last_outcome:
  "fst (deliver U st pid a t k True ib ij p T1) =
     (if \<not> ib \<and> ij \<and> fromJson U (decodeBytes U (concat (chunks T1))) = None
      then Some SyntaxError else None)"
  by (simp add: deliver_def Let_def split: option.splits)


lemma deliver_plain: "plainPeer (snd (deliver U st pid a t k False ib ij p T1)) pid"
  by (simp add: deliver_not_last calls_update_simps storeTarget_plain)




lemma subarray_all: "length b \<le> hi \<Longrightarrow> subarray b 0 hi = b"
  by (simp add: subarray_def)

lemma framesOf_parsed:
  assumes af: "actionFor U name a" and i: "i < length (framesOf U a d m)"
  shows "decodeType U (framesOf U a d m ! i) = decodeType U (typeBytesPadded a)"
    and "byteAt (framesOf U a d m ! i) nonceIndex = Some (of_nat (nonce a))"
    and "isLastFrame (framesOf U a d m ! i) \<longleftrightarrow> i = length (framesOf U a d m) - 1"
    and "isMetaFrame (framesOf U a d m ! i) \<longleftrightarrow> truthyMeta m \<and> i = 0"
    and "isBinaryFrame (framesOf U a d m ! i) \<longleftrightarrow> isBinaryData d"
    and "isJsonFrame (framesOf U a d m ! i) \<longleftrightarrow> isJsonData d"
    and "payloadOf (framesOf U a d m ! i) = slice (truthyMeta m) (metaEncodedOf U m) (bufferOf U d) i"
    and "progressOf (framesOf U a d m ! i) =
           Some (of_nat (progressByte i (length (framesOf U a d m))) / of_nat oneByteMax)"
proof -
  have i': "i < chunkTotal (length (bufferOf U d)) (truthyMeta m)"
    using i by (simp add: length_framesOf)
  note f = nth_framesOf [OF i', where a = a]
  note len = actionFor_length [OF af]
  have "subarray (typeBytesPadded a) typeIndex nonceIndex = typeBytesPadded a"
    using len by (simp add: subarray_def layout_defs)
  then show "decodeType U (framesOf U a d m ! i) = decodeType U (typeBytesPadded a)"
    by (simp add: decodeType_def frame_parts(1) [OF len f])
  show "byteAt (framesOf U a d m ! i) nonceIndex = Some (of_nat (nonce a))"
    by (rule frame_parts(2) [OF len f])
  have tag: "tagOf (framesOf U a d m ! i) =
           tagByte (i = length (framesOf U a d m) - 1) (truthyMeta m \<and> i = 0)
             (isBinaryData d) (isJsonData d)"
    by (simp add: frame_parts(3) [OF len f] length_framesOf)
  show "isLastFrame (framesOf U a d m ! i) \<longleftrightarrow> i = length (framesOf U a d m) - 1"
    "isMetaFrame (framesOf U a d m ! i) \<longleftrightarrow> truthyMeta m \<and> i = 0"
    "isBinaryFrame (framesOf U a d m ! i) \<longleftrightarrow> isBinaryData d"
    "isJsonFrame (framesOf U a d m ! i) \<longleftrightarrow> isJsonData d"
    unfolding isLastFrame_def isMetaFrame_def isBinaryFrame_def isJsonFrame_def tag
    by (simp_all only: tagByte_bit)
  show "payloadOf (framesOf U a d m ! i) = slice (truthyMeta m) (metaEncodedOf U m) (bufferOf U d) i"
    by (rule frame_parts(5) [OF len f])
  show "progressOf (framesOf U a d m ! i) =
           Some (of_nat (progressByte i (length (framesOf U a d m))) / of_nat oneByteMax)"
    unfolding f length_framesOf by (rule frame_progress [OF len i'])
qed

lemma truthyMeta_cases:
  "m \<noteq> MetaOther \<Longrightarrow> truthyMeta m \<longleftrightarrow> (\<exists>v. m = MetaObject v)"
  by (cases m) (simp_all add: truthyMeta_def)




lemma binary_deliveredOf: "isBinaryData d \<Longrightarrow> deliveredOf d = Bytes (bufferOf U d)"
  by (cases d) (simp_all add: isBinaryData_def deliveredOf_def bufferOf_def)



section \<open>The round trip\<close>




section \<open>Frames of an unregistered type\<close>

lemma makeAction_rest:
  assumes "makeAction U st n = Inr (h, st')"
  shows "pendingTransmissions st' = pendingTransmissions st" and "inherited st' = inherited st"
    and "peerMap st' = peerMap st" and "blobReads st' = blobReads st"
  using assms
  by (auto simp: makeAction_def bindE_def u8set_def Let_def
      split: lookup.splits option.splits if_splits)

lemma makeActions_rest:
  "makeActions U st ns = Inr (hs, st') \<Longrightarrow>
   pendingTransmissions st' = pendingTransmissions st \<and> inherited st' = inherited st"
proof (induction ns arbitrary: st hs)
  case Nil
  then show ?case by simp
next
  case (Cons n ns)
  from Cons.prems obtain h st1 hs1 where
    mk: "makeAction U st (Some n) = Inr (h, st1)" and rest: "makeActions U st1 ns = Inr (hs1, st')"
    by (auto simp: bindE_def split: sum.splits)
  show ?case using Cons.IH [OF rest] makeAction_rest(1,2) [OF mk] by simp
qed

lemma setOnComplete_rest:
  "pendingTransmissions (setOnComplete st k f) = pendingTransmissions st"
  "inherited (setOnComplete st k f) = inherited st"
  by (cases "actions st k"; simp add: setOnComplete_def)+

lemma foldl_setOnComplete_rest:
  "pendingTransmissions (foldl (\<lambda>s nf. setOnComplete s (fst nf) (snd nf)) st nfs) =
   pendingTransmissions st \<and>
   inherited (foldl (\<lambda>s nf. setOnComplete s (fst nf) (snd nf)) st nfs) = inherited st"
  by (induction nfs arbitrary: st) (simp_all add: setOnComplete_rest)

lemma newRoom_rest:
  assumes "newRoom U = Inr (hs, st)"
  shows "pendingTransmissions st = Map.empty" and "inherited st = (\<lambda>k. Map.empty)"
  using assms
  by (auto simp: newRoom_def bindE_def foldl_setOnComplete_rest emptyRoom_def
      split: sum.splits dest!: makeActions_rest)

lemma inherits_newRoom:
  "newRoom U = Inr (hs, st) \<Longrightarrow> inherits st k \<longleftrightarrow> k \<in> set objectPrototypeKeys"
  by (simp add: inherits_def newRoom_rest split: option.splits)

lemma toStringFrame_parts:
  "decodeType textUtils toStringFrame = ''toString''"
  "tagOf toStringFrame = 1"
  "byteAt toStringFrame nonceIndex = Some 0"
  "payloadOf toStringFrame = []"
proof -
  have "subarray toStringFrame typeIndex nonceIndex = encodeBytes textUtils ''toString'' @ [0, 0, 0, 0]"
    by (simp add: toStringFrame_def subarray_def layout_defs textUtils_length)
  moreover have "filter (\<lambda>c. c \<noteq> CHR 0x00) (decodeBytes textUtils [0, 0, 0, 0]) = []"
    using textUtils_decode_zeros [of 4] by (simp add: replicate_numeral)
  ultimately show "decodeType textUtils toStringFrame = ''toString''"
    by (simp add: decodeType_def textUtils_decode_append textUtils_decode_encode del: append.simps)
  show "tagOf toStringFrame = 1"
    by (simp add: toStringFrame_def tagOf_def byteAt_def layout_defs textUtils_length nth_append)
  show "byteAt toStringFrame nonceIndex = Some 0"
    by (simp add: toStringFrame_def byteAt_def layout_defs textUtils_length nth_append)
  show "payloadOf toStringFrame = []"
    by (simp add: toStringFrame_def payloadOf_def subarray_def layout_defs textUtils_length)
qed

text \<open>
  C7 (the code departs from the claim). The room as the exported function returns it
  holds no action named \<open>toString\<close>, and nothing is pending. For a frame with that type
  field, \<open>actions[type]\<close> is the function inherited from \<open>Object.prototype\<close>, so
  the guard does not fire: \<open>handleData\<close> creates the entry of the peer in
  \<open>pendingTransmissions\<close>, stores the (empty) payload as a pending transmission on
  the inherited function, and then fails calling \<open>onProgress\<close>, which is
  \<open>undefined\<close>; no error about an unregistered type is raised.
\<close>

theorem handleData_toString:
  "actions mainRoom (decodeType textUtils toStringFrame) = None \<and>
   pendingTransmissions mainRoom ''peer'' = None \<and>
   handleData textUtils mainRoom ''peer'' toStringFrame =
     Some (Some NotAFunction,
           mainRoom\<lparr>pendingTransmissions := [''peer'' \<mapsto> Map.empty],
                    inherited := (inherited mainRoom)
                      (''toString'' := [Some 0 \<mapsto> \<lparr>chunks = [[]], meta = None\<rparr>])\<rparr>)"
proof -
  have "''toString'' \<notin> set internalTypes" by (simp add: internalTypes_def)
  then have none: "actions mainRoom ''toString'' = None"
    by (rule newRoom_actions(3) [OF mainRoom_made])
  have ts: "''toString'' \<in> set objectPrototypeKeys" by (simp add: objectPrototypeKeys_def)
  note inh = inherits_newRoom [OF mainRoom_made]
  have got: "getProp (inherits mainRoom) (actions mainRoom) (decodeType textUtils toStringFrame) = Inherited"
    using none ts by (simp add: getProp_def toStringFrame_parts inh)
  have pend: "pendingTransmissions mainRoom = Map.empty" "inherited mainRoom = (\<lambda>k. Map.empty)"
    by (rule newRoom_rest [OF mainRoom_made])+
  have plain: "plainPeer mainRoom ''peer''"
    by (simp add: plainPeer_def inh peer_not_inherited)
  have nometa: "\<not> isMetaFrame toStringFrame"
    by (simp add: isMetaFrame_def toStringFrame_parts bit_1_iff)
  have tab: "tableOf mainRoom ''peer'' ''toString'' = InheritedObject ''toString''"
    using ts by (simp add: tableOf_def perPeer_def pend inh)
  have t0: "targetAt mainRoom ''peer'' ''toString'' (Some 0) = newTarget"
    by (simp add: targetAt_def pendingAt_def tab slotTable_def slots_def pend)
  have st: "storeTarget mainRoom ''peer'' ''toString'' (Some 0) \<lparr>chunks = [[]], meta = None\<rparr> =
      mainRoom\<lparr>pendingTransmissions := [''peer'' \<mapsto> Map.empty],
                    inherited := (inherited mainRoom)
                      (''toString'' := [Some 0 \<mapsto> \<lparr>chunks = [[]], meta = None\<rparr>])\<rparr>"
    using ts
    by (simp add: storeTarget_def ensureTables_def tab tableOf_def slotTable_def slots_def
        setSlots_def perPeer_def pend inh Let_def)
  show ?thesis
    using none pend(1) nometa
    by (simp add: handleData_inherited [OF got plain] toStringFrame_parts t0 newTarget_def st)
qed

section \<open>The JSON bit of a binary frame\<close>

lemma deliver_binary: 
  "deliver U st pid a t k l True True p T1 = deliver U st pid a t k l True False p T1"
  by (simp add: deliver_def Let_def)

lemma bit_8_byte: "bit (8 :: byte) k \<longleftrightarrow> k = 3"
proof -
  have "(8 :: byte) = push_bit 3 1" by simp
  then show ?thesis by (simp only: bit_push_bit_iff) (auto simp: bit_1_iff)
qed

lemma flip_json_parts:
  assumes "isBinaryFrame buffer"
  defines "b' \<equiv> buffer[tagIndex := tagOf buffer XOR 8]"
  shows "decodeType U b' = decodeType U buffer"
    and "byteAt b' nonceIndex = byteAt buffer nonceIndex"
    and "progressOf b' = progressOf buffer"
    and "payloadOf b' = payloadOf buffer"
    and "isLastFrame b' = isLastFrame buffer"
    and "isMetaFrame b' = isMetaFrame buffer"
    and "isBinaryFrame b'"
    and "isJsonFrame b' = (\<not> isJsonFrame buffer)"
proof -
  have len: "tagIndex < length buffer"
    using assms(1) by (auto simp: isBinaryFrame_def tagOf_def byteAt_def split: if_splits)
  have tag: "tagOf b' = tagOf buffer XOR 8"
    using len by (simp add: b'_def tagOf_def byteAt_def)
  show "decodeType U b' = decodeType U buffer"
    by (simp add: b'_def decodeType_def subarray_def layout_defs)
  show "byteAt b' nonceIndex = byteAt buffer nonceIndex"
    by (simp add: b'_def byteAt_def layout_defs)
  show "progressOf b' = progressOf buffer"
    by (simp add: b'_def progressOf_def byteAt_def layout_defs)
  show "payloadOf b' = payloadOf buffer"
    by (simp add: b'_def payloadOf_def subarray_def layout_defs)
  show "isLastFrame b' = isLastFrame buffer" "isMetaFrame b' = isMetaFrame buffer"
    by (simp_all add: isLastFrame_def isMetaFrame_def tag bit_xor_iff bit_8_byte)
  show "isBinaryFrame b'"
    using assms(1) by (simp add: isBinaryFrame_def tag bit_xor_iff bit_8_byte)
  show "isJsonFrame b' = (\<not> isJsonFrame buffer)"
    by (simp add: isJsonFrame_def tag bit_xor_iff bit_8_byte)
qed

lemma handleData_ignores_json_bit:
  assumes "isBinaryFrame buffer"
  shows "handleData U st pid (buffer[tagIndex := tagOf buffer XOR 8]) = handleData U st pid buffer"
proof -
  note f = flip_json_parts [OF assms]
  show ?thesis
  proof (cases "getProp (inherits st) (actions st) (decodeType U buffer)")
    case (Own a)
    then have act: "actions st (decodeType U buffer) = Some a"
      by (auto simp: getProp_def split: option.splits if_splits)
    then have act': "actions st (decodeType U (buffer[tagIndex := tagOf buffer XOR 8])) = Some a"
      by (simp add: f(1))
    have bin: "isBinaryFrame buffer = True"
      "isBinaryFrame (buffer[tagIndex := tagOf buffer XOR 8]) = True"
      using assms f(7) by simp_all
    show ?thesis
    proof (cases "plainPeer st pid")
      case True
      show ?thesis
        unfolding handleData_own [OF act True] handleData_own [OF act' True] f(1-6) f(8) bin
        by (cases "isJsonFrame buffer") (simp_all add: deliver_binary split: option.splits)
    next
      case False
      have "getProp (inherits st) (actions st) (decodeType U (buffer[tagIndex := tagOf buffer XOR 8])) \<noteq> Absent"
        using Own by (simp add: f(1))
      then show ?thesis
        using Own False by (simp add: handleData_beyond)
    qed
  next
    case Inherited
    then have inh': "getProp (inherits st) (actions st)
        (decodeType U (buffer[tagIndex := tagOf buffer XOR 8])) = Inherited"
      by (simp add: f(1))
    show ?thesis
    proof (cases "plainPeer st pid")
      case True
      show ?thesis
        unfolding handleData_inherited [OF Inherited True] handleData_inherited [OF inh' True]
          f(1,2,4,6)
        by (rule refl)
    next
      case False
      then show ?thesis using Inherited inh' by (simp add: handleData_beyond)
    qed
  next
    case Absent
    then show ?thesis by (simp add: handleData_absent f(1))
  qed
qed

lemma binary_last_frame:
  assumes act: "actions st (decodeType U f) = Some b" and plain: "plainPeer st pid"
    and bin: "isBinaryFrame f" and last: "isLastFrame f"
    and T0: "T0 = targetAt st pid (decodeType U f) (byteAt f nonceIndex)"
  shows "\<not> isMetaFrame f \<Longrightarrow>
         \<exists>st'. handleData U st pid f = Some (None, st') \<and>
           calls st' = calls st @
             [ActionProgress (onProgress b) (progressOf f) pid (meta T0),
              ActionComplete (onComplete b) (Bytes (concat (chunks T0) @ payloadOf f)) pid (meta T0)]"
    and "isMetaFrame f \<Longrightarrow> fromJson U (decodeBytes U (payloadOf f)) = Some v \<Longrightarrow>
         \<exists>st'. handleData U st pid f = Some (None, st') \<and>
           calls st' = calls st @
             [ActionProgress (onProgress b) (progressOf f) pid (Some v),
              ActionComplete (onComplete b) (Bytes (concat (chunks T0))) pid (Some v)]"
proof -
  have b1: "isBinaryFrame f = True" "isLastFrame f = True" using bin last by simp_all
  {
    assume nm: "\<not> isMetaFrame f"
    define D where "D = deliver U st pid b (decodeType U f) (byteAt f nonceIndex) True True
        (isJsonFrame f) (progressOf f) (T0\<lparr>chunks := chunks T0 @ [payloadOf f]\<rparr>)"
    have hd: "handleData U st pid f = Some D"
      by (simp add: handleData_own [OF act plain] nm b1 D_def T0)
    have fD: "fst D = None" by (simp add: D_def deliver_last_outcome)
    have cD: "calls (snd D) = calls st @
             [ActionProgress (onProgress b) (progressOf f) pid (meta T0),
              ActionComplete (onComplete b) (Bytes (concat (chunks T0) @ payloadOf f)) pid (meta T0)]"
      by (simp add: D_def deliver_last_calls)
    have hD: "handleData U st pid f = Some (None, snd D)" by (simp add: hd prod_eq_iff fD)
    show "\<exists>st'. handleData U st pid f = Some (None, st') \<and>
           calls st' = calls st @
             [ActionProgress (onProgress b) (progressOf f) pid (meta T0),
              ActionComplete (onComplete b) (Bytes (concat (chunks T0) @ payloadOf f)) pid (meta T0)]"
      using hD cD by (intro exI [of _ "snd D"] conjI)
  }
  {
    assume m: "isMetaFrame f" and dec: "fromJson U (decodeBytes U (payloadOf f)) = Some v"
    define D where "D = deliver U st pid b (decodeType U f) (byteAt f nonceIndex) True True
        (isJsonFrame f) (progressOf f) (T0\<lparr>meta := Some v\<rparr>)"
    have hd: "handleData U st pid f = Some D"
      by (simp add: handleData_own [OF act plain] m dec b1 D_def T0)
    have fD: "fst D = None" by (simp add: D_def deliver_last_outcome)
    have cD: "calls (snd D) = calls st @
             [ActionProgress (onProgress b) (progressOf f) pid (Some v),
              ActionComplete (onComplete b) (Bytes (concat (chunks T0))) pid (Some v)]"
      by (simp add: D_def deliver_last_calls)
    have hD: "handleData U st pid f = Some (None, snd D)" by (simp add: hd prod_eq_iff fD)
    show "\<exists>st'. handleData U st pid f = Some (None, st') \<and>
           calls st' = calls st @
             [ActionProgress (onProgress b) (progressOf f) pid (Some v),
              ActionComplete (onComplete b) (Bytes (concat (chunks T0))) pid (Some v)]"
      using hD cD by (intro exI [of _ "snd D"] conjI)
  }
qed

lemma framesOf_nonempty: "framesOf U a d m \<noteq> []"
  using chunkTotal_pos [of "length (bufferOf U d)" "truthyMeta m"]
  by (simp add: length_framesOf flip: length_greater_0_conv)

text \<open>
  C10. For binary data \<open>send\<close> builds at least one frame, and every frame has both
  the binary bit and the JSON bit set. On the last frame of a transmission with the
  binary bit set, whatever the JSON bit, \<open>handleData\<close> hands the completion
  callback of the action the raw bytes: the fragments received so far, followed by the
  payload of the frame unless the frame carries the metadata, together with the
  metadata. And for every frame with the binary bit set, \<open>handleData\<close> gives the
  same result whether the JSON bit is set or not.
\<close>

theorem binary_frames_carry_json_bit:
  assumes "actionFor U name a" and "validArgs d m" and "isBinaryData d"
  shows "(\<exists>cs. sendChunks U a d m = Inr cs \<and> cs \<noteq> [] \<and>
            (\<forall>c\<in>set cs. bit (tagOf c) 2 \<and> bit (tagOf c) 3)) \<and>
         (\<forall>st pid f b.
            actions st (decodeType U f) = Some b \<and> plainPeer st pid \<and>
            bit (tagOf f) 2 \<and> bit (tagOf f) 0 \<and> \<not> bit (tagOf f) 1 \<longrightarrow>
            (\<exists>st'. handleData U st pid f = Some (None, st') \<and>
               calls st' = calls st @
                 [ActionProgress (onProgress b) (progressOf f) pid
                    (meta (targetAt st pid (decodeType U f) (byteAt f nonceIndex))),
                  ActionComplete (onComplete b)
                    (Bytes (concat (chunks (targetAt st pid (decodeType U f) (byteAt f nonceIndex)))
                              @ payloadOf f))
                    pid (meta (targetAt st pid (decodeType U f) (byteAt f nonceIndex)))])) \<and>
         (\<forall>st pid f b v.
            actions st (decodeType U f) = Some b \<and> plainPeer st pid \<and>
            bit (tagOf f) 2 \<and> bit (tagOf f) 0 \<and> bit (tagOf f) 1 \<and>
            fromJson U (decodeBytes U (payloadOf f)) = Some v \<longrightarrow>
            (\<exists>st'. handleData U st pid f = Some (None, st') \<and>
               calls st' = calls st @
                 [ActionProgress (onProgress b) (progressOf f) pid (Some v),
                  ActionComplete (onComplete b)
                    (Bytes (concat (chunks (targetAt st pid (decodeType U f) (byteAt f nonceIndex)))))
                    pid (Some v)])) \<and>
         (\<forall>st pid f. bit (tagOf f) 2 \<longrightarrow>
            handleData U st pid (f[tagIndex := tagOf f XOR 8]) = handleData U st pid f)"
proof (intro conjI allI impI)
  show "\<exists>cs. sendChunks U a d m = Inr cs \<and> cs \<noteq> [] \<and>
            (\<forall>c\<in>set cs. bit (tagOf c) 2 \<and> bit (tagOf c) 3)"
  proof (intro exI conjI ballI)
    show "sendChunks U a d m = Inr (framesOf U a d m)" by (rule frames_exist [OF assms(1,2)])
    show "framesOf U a d m \<noteq> []" by (rule framesOf_nonempty)
    fix c assume "c \<in> set (framesOf U a d m)"
    then obtain i where i: "i < length (framesOf U a d m)" and c: "framesOf U a d m ! i = c"
      unfolding in_set_conv_nth by blast
    have js: "isJsonData d" using assms(3) by (cases d) (simp_all add: isBinaryData_def isJsonData_def)
    have b: "isBinaryFrame c" "isJsonFrame c"
      using framesOf_parsed(5,6) [OF assms(1) i] assms(3) js by (simp_all add: c)
    then show "bit (tagOf c) 2" "bit (tagOf c) 3"
      by (simp_all add: isBinaryFrame_def isJsonFrame_def)
  qed
next
  fix st :: "'a room" and pid f b
  assume h: "actions st (decodeType U f) = Some b \<and> plainPeer st pid \<and>
            bit (tagOf f) 2 \<and> bit (tagOf f) 0 \<and> \<not> bit (tagOf f) 1"
  then have bits: "isBinaryFrame f" "isLastFrame f" "\<not> isMetaFrame f"
    by (simp_all add: isBinaryFrame_def isLastFrame_def isMetaFrame_def)
  have act: "actions st (decodeType U f) = Some b" and plain: "plainPeer st pid"
    using h by simp_all
  show "\<exists>st'. handleData U st pid f = Some (None, st') \<and>
               calls st' = calls st @
                 [ActionProgress (onProgress b) (progressOf f) pid
                    (meta (targetAt st pid (decodeType U f) (byteAt f nonceIndex))),
                  ActionComplete (onComplete b)
                    (Bytes (concat (chunks (targetAt st pid (decodeType U f) (byteAt f nonceIndex)))
                              @ payloadOf f))
                    pid (meta (targetAt st pid (decodeType U f) (byteAt f nonceIndex)))]"
    by (rule binary_last_frame(1) [OF act plain bits(1,2) refl bits(3)])
next
  fix st :: "'a room" and pid f b v
  assume h: "actions st (decodeType U f) = Some b \<and> plainPeer st pid \<and>
            bit (tagOf f) 2 \<and> bit (tagOf f) 0 \<and> bit (tagOf f) 1 \<and>
            fromJson U (decodeBytes U (payloadOf f)) = Some v"
  then have bits: "isBinaryFrame f" "isLastFrame f" "isMetaFrame f"
    by (simp_all add: isBinaryFrame_def isLastFrame_def isMetaFrame_def)
  have act: "actions st (decodeType U f) = Some b" and plain: "plainPeer st pid"
    and dec: "fromJson U (decodeBytes U (payloadOf f)) = Some v"
    using h by simp_all
  show "\<exists>st'. handleData U st pid f = Some (None, st') \<and>
               calls st' = calls st @
                 [ActionProgress (onProgress b) (progressOf f) pid (Some v),
                  ActionComplete (onComplete b)
                    (Bytes (concat (chunks (targetAt st pid (decodeType U f) (byteAt f nonceIndex)))))
                    pid (Some v)]"
    by (rule binary_last_frame(2) [OF act plain bits(1,2) refl bits(3) dec])
next
  fix st :: "'a room" and pid f
  assume "bit (tagOf f) 2"
  then show "handleData U st pid (f[tagIndex := tagOf f XOR 8]) = handleData U st pid f"
    by (intro handleData_ignores_json_bit) (simp add: isBinaryFrame_def)
qed


lemma rawFrame_parts:
  "decodeType textUtils rawFrame = ''binary''"
  "tagOf rawFrame = 5"
  "byteAt rawFrame nonceIndex = Some 0"
  "payloadOf rawFrame = [1, 2, 3]"
  "progressOf rawFrame = Some 1"
proof -
  have k: "length (typeBytesPadded binaryAction) = 12" by (simp add: binaryAction_def)
  have "subarray rawFrame typeIndex nonceIndex = typeBytesPadded binaryAction"
    using k by (simp add: rawFrame_def subarray_def layout_defs)
  then show "decodeType textUtils rawFrame = ''binary''"
    using binary_type_survives
    by (simp add: decodeType_def subarray_def layout_defs k)
  show "tagOf rawFrame = 5"
    using k by (simp add: rawFrame_def tagOf_def byteAt_def layout_defs nth_append)
  show "byteAt rawFrame nonceIndex = Some 0"
    using k by (simp add: rawFrame_def byteAt_def layout_defs nth_append)
  show "payloadOf rawFrame = [1, 2, 3]"
    using k by (simp add: rawFrame_def payloadOf_def subarray_def layout_defs)
  show "progressOf rawFrame = Some 1"
    using k by (simp add: rawFrame_def progressOf_def byteAt_def layout_defs nth_append)
qed

lemma bits_of_five: "bit (5 :: byte) 2" "bit (5 :: byte) 0" "\<not> bit (5 :: byte) 1"
  by (simp_all add: bit_numeral_rec numeral_eq_Suc)

theorem binary_frames_carry_json_bit_witness:
  "(\<exists>cs. sendChunks textUtils binaryAction (DBuffer [1, 2, 3]) MetaFalsy = Inr cs \<and> cs \<noteq> [] \<and>
     (\<forall>c\<in>set cs. bit (tagOf c) 2 \<and> bit (tagOf c) 3)) \<and>
   (\<exists>st'. handleData textUtils binaryRoom ''peer'' rawFrame = Some (None, st') \<and>
      calls st' = [ActionProgress noOp (Some 1) ''peer'' None,
                   ActionComplete noOp (Bytes [1, 2, 3]) ''peer'' None]) \<and>
   handleData textUtils binaryRoom ''peer'' (rawFrame[tagIndex := 5 XOR 8]) =
     handleData textUtils binaryRoom ''peer'' rawFrame"
proof -
  have v: "validArgs (DBuffer [1, 2, 3]) (MetaFalsy :: string jsmeta)"
    by (simp add: validArgs_def truthyMeta_def isBigInts_def)
  have b: "isBinaryData (DBuffer [1, 2, 3] :: string jsdata)" by (simp add: isBinaryData_def)
  note th = binary_frames_carry_json_bit [OF binaryAction_ok v b]
  have t0: "targetAt binaryRoom ''peer'' ''binary'' (Some 0) = newTarget"
    by (simp add: targetAt_def binaryRoom_pending)
  have pre: "actions binaryRoom (decodeType textUtils rawFrame) = Some binaryAction \<and>
      plainPeer binaryRoom ''peer'' \<and>
      bit (tagOf rawFrame) 2 \<and> bit (tagOf rawFrame) 0 \<and> \<not> bit (tagOf rawFrame) 1"
    by (simp add: rawFrame_parts binaryRoom_simps binaryRoom_plain peer_not_inherited bits_of_five)
  have two: "\<exists>st'. handleData textUtils binaryRoom ''peer'' rawFrame = Some (None, st') \<and>
      calls st' = [ActionProgress noOp (Some 1) ''peer'' None,
                   ActionComplete noOp (Bytes [1, 2, 3]) ''peer'' None]"
    using th [THEN conjunct2, THEN conjunct1, rule_format, OF pre]
    by (simp add: rawFrame_parts t0 newTarget_def binaryRoom_simps binaryAction_def)
  have three: "handleData textUtils binaryRoom ''peer'' (rawFrame[tagIndex := tagOf rawFrame XOR 8]) =
     handleData textUtils binaryRoom ''peer'' rawFrame"
    by (rule th [THEN conjunct2, THEN conjunct2, THEN conjunct2, rule_format])
      (simp add: rawFrame_parts bits_of_five)
  show ?thesis
    using th [THEN conjunct1] two three by (simp only: rawFrame_parts(2) simp_thms)
qed


end
